theory Spec2Isabelle
  imports Main "HOL-Library.Word"
begin

unbundle bit_operations_syntax

section \<open>sindex: a shallow embedding of \<^verbatim>\<open>sindex.c\<close>\<close>

text \<open>
  The C source keeps its configuration in process-wide variables and ends the process
  with \<^verbatim>\<open>sindex_error(1, ...)\<close> on every fatal condition. In the embedding a
  function takes the variables it reads, returns the ones it writes, and a fatal exit
  is the left summand of its result.

  A C string is modelled by the list of characters before its terminating NUL, so the
  test \<^verbatim>\<open>*fmt != '\0'\<close> is the test for a non-empty list and \<^verbatim>\<open>strlen\<close> is
  \<open>length\<close>.
\<close>

subsection \<open>Fatal exits\<close>

datatype failure =
    Mode_length                 \<comment> \<open>the length of mode value must be 1 or 3\<close>
  | Unknown_modificator         \<comment> \<open>unknown modificator (1-character form)\<close>
  | Unknown_mode_char char      \<comment> \<open>unknown modificator in the mode value\<close>
  | Format_end                  \<comment> \<open>unexpected end of format string\<close>
  | Format_spec char            \<comment> \<open>invalid format specification\<close>
  | Strdup_failed
  | Fopen_failed string
  | Stat_failed string
  | Realpath_failed string
  | Query_failed                \<comment> \<open>unable to process query (\<^verbatim>\<open>sqlite_run\<close>)\<close>
  | Undefined_behaviour         \<comment> \<open>a read the C standard leaves undefined\<close>

text \<open>
  Every \<^verbatim>\<open>sindex_error\<close> call of the source that ends the process passes
  status 1. An undefined read has no exit status.
\<close>

fun exit_status :: "failure \<Rightarrow> int option" where
  "exit_status Undefined_behaviour = None"
| "exit_status _ = Some 1"

subsection \<open>The mode bits of \<^verbatim>\<open>dissect.h\<close>\<close>

text \<open>
  \<^verbatim>\<open>dissect.h\<close> belongs to the frontend and is not part of this source file. Its
  macros \<^verbatim>\<open>U_SHIFT\<close>, \<^verbatim>\<open>U_R_AOF\<close>, \<^verbatim>\<open>U_W_AOF\<close>, \<^verbatim>\<open>U_R_VAL\<close>,
  \<^verbatim>\<open>U_W_VAL\<close>, \<^verbatim>\<open>U_R_PTR\<close>, \<^verbatim>\<open>U_W_PTR\<close> are therefore parameters of the
  embedding, collected in one record. \<^verbatim>\<open>U_DEF\<close> is defined by \<^verbatim>\<open>sindex.c\<close>
  itself as \<^verbatim>\<open>0x100 << U_SHIFT\<close>.
\<close>

record dissect_h =
  U_SHIFT :: nat
  U_R_AOF :: int
  U_W_AOF :: int
  U_R_VAL :: int
  U_W_VAL :: int
  U_R_PTR :: int
  U_W_PTR :: int

definition U_DEF :: "dissect_h \<Rightarrow> int" where
  "U_DEF H = push_bit (U_SHIFT H) 256"




text \<open>
  A layout that meets these conditions, for the examples: the values the frontend's
  \<^verbatim>\<open>dissect.h\<close> gives the macros.
\<close>

definition sparse_dissect_h :: dissect_h where
  "sparse_dissect_h =
     \<lparr>U_SHIFT = 8, U_R_AOF = 1, U_W_AOF = 2, U_R_VAL = 4, U_W_VAL = 8,
      U_R_PTR = 1024, U_W_PTR = 2048\<rparr>"

subsection \<open>\<^verbatim>\<open>set_search_modmask\<close>: parsing the argument of \<^verbatim>\<open>-m\<close>\<close>

text \<open>The static table \<^verbatim>\<open>modes[]\<close>.\<close>

definition modes :: "dissect_h \<Rightarrow> int list" where
  "modes H =
     [U_R_AOF H, U_W_AOF H, U_R_AOF H OR U_W_AOF H,
      U_R_VAL H, U_W_VAL H, U_R_VAL H OR U_W_VAL H,
      U_R_PTR H, U_W_PTR H, U_R_PTR H OR U_W_PTR H]"

text \<open>
  The \<^verbatim>\<open>for (int i = 0; i < 3; i++)\<close> loop over \<^verbatim>\<open>v[i]\<close>; the accumulator is
  \<^verbatim>\<open>sindex_search_modmask\<close>. It is only entered with a string of length 3.
\<close>

function modmask_loop :: "dissect_h \<Rightarrow> string \<Rightarrow> nat \<Rightarrow> int \<Rightarrow> failure + int" where
  "modmask_loop H v i acc =
     (if i < 3 then
        (if v ! i = CHR ''r'' then modmask_loop H v (i + 1) (acc OR modes H ! (i * 3))
         else if v ! i = CHR ''w'' then modmask_loop H v (i + 1) (acc OR modes H ! (i * 3 + 1))
         else if v ! i = CHR ''m'' then modmask_loop H v (i + 1) (acc OR modes H ! (i * 3 + 2))
         else if v ! i = CHR ''-'' then modmask_loop H v (i + 1) acc
         else Inl (Unknown_mode_char (v ! i)))
      else Inr acc)"
  by pat_completeness auto
termination
  by (relation "measure (\<lambda>(H, v, i, acc). 3 - i)") auto

text \<open>
  The result is the new value of \<^verbatim>\<open>sindex_search_modmask\<close>; on every return
  \<^verbatim>\<open>sindex_search_modmask_defined\<close> is 1.
\<close>

definition set_search_modmask :: "dissect_h \<Rightarrow> string \<Rightarrow> failure + int" where
  "set_search_modmask H v =
     (let n = length v in
      if n \<noteq> 1 \<and> n \<noteq> 3 then Inl Mode_length
      else if n = 1 then
        (if v ! 0 = CHR ''r'' then modmask_loop H ''rrr'' 0 0
         else if v ! 0 = CHR ''w'' then modmask_loop H ''ww-'' 0 0
         else if v ! 0 = CHR ''m'' then modmask_loop H ''mmm'' 0 0
         else if v ! 0 = CHR ''-'' then modmask_loop H ''---'' 0 0
         else Inl Unknown_modificator)
      else if v = ''def'' then Inr (U_DEF H)
      else modmask_loop H v 0 0)"

subsection \<open>The mode clause of \<^verbatim>\<open>command_search\<close>\<close>



subsection \<open>\<^verbatim>\<open>print_mode\<close>\<close>

text \<open>C's \<^verbatim>\<open>/\<close> on \<^verbatim>\<open>int\<close> truncates towards zero.\<close>

definition c_div :: "int \<Rightarrow> int \<Rightarrow> int" where
  "c_div a b = (if (a < 0) = (b < 0) then \<bar>a\<bar> div \<bar>b\<bar> else - (\<bar>a\<bar> div \<bar>b\<bar>))"

text \<open>The macro \<^verbatim>\<open>U(m)\<close>: \<^verbatim>\<open>"-rwm"[(v / m) & 3]\<close>.\<close>

definition U :: "int \<Rightarrow> int \<Rightarrow> char" where
  "U v m = ''-rwm'' ! nat (c_div v m AND 3)"

text \<open>The body of \<^verbatim>\<open>print_mode\<close> after \<^verbatim>\<open>atoi\<close>: the characters it prints.\<close>

definition print_mode_int :: "dissect_h \<Rightarrow> int \<Rightarrow> string" where
  "print_mode_int H v =
     (if v = U_DEF H then ''def''
      else [U v (U_R_AOF H), U v (U_R_VAL H), U v (U_R_PTR H)])"


text \<open>
  The bits a character of a 3-character mode selects in a triple with R bit \<open>r\<close> and
  W bit \<open>w\<close>, in the specification's words: \<^verbatim>\<open>r\<close> the R bit, \<^verbatim>\<open>w\<close> the W bit,
  \<^verbatim>\<open>m\<close> both, \<^verbatim>\<open>-\<close> none.
\<close>

definition mode_char_bits :: "int \<Rightarrow> int \<Rightarrow> char \<Rightarrow> int" where
  "mode_char_bits r w c =
     (if c = CHR ''r'' then r else if c = CHR ''w'' then w
      else if c = CHR ''m'' then r OR w else 0)"


subsection \<open>\<^verbatim>\<open>atoi\<close>\<close>

text \<open>
  \<^verbatim>\<open>atoi\<close> of the C library, as the library of the platform has it:
  \<^verbatim>\<open>(int) strtol(nptr, NULL, 10)\<close>. \<^verbatim>\<open>strtol\<close> skips white space, reads an
  optional sign and then decimal digits up to the first other character; its result
  stays within the 64 bits of a \<^verbatim>\<open>long\<close>. The conversion to \<^verbatim>\<open>int\<close> keeps the
  low 32 bits, read as two's complement. (The C standard leaves \<^verbatim>\<open>atoi\<close> undefined
  when the value does not fit an \<^verbatim>\<open>int\<close>.)
\<close>

definition isspace :: "char \<Rightarrow> bool" where
  "isspace c \<longleftrightarrow> (of_char c :: nat) \<in> {32, 9, 10, 11, 12, 13}"

definition isdigit :: "char \<Rightarrow> bool" where
  "isdigit c \<longleftrightarrow> 48 \<le> (of_char c :: nat) \<and> (of_char c :: nat) \<le> 57"

fun atoi_digits :: "string \<Rightarrow> int \<Rightarrow> int" where
  "atoi_digits [] acc = acc"
| "atoi_digits (c # cs) acc =
     (if isdigit c then atoi_digits cs (acc * 10 + (of_char c - 48)) else acc)"

definition strtol :: "string \<Rightarrow> int" where
  "strtol s =
     (let v = (case dropWhile isspace s of
                 [] \<Rightarrow> 0
               | c # cs \<Rightarrow>
                   if c = CHR ''-'' then - atoi_digits cs 0
                   else if c = CHR ''+'' then atoi_digits cs 0
                   else atoi_digits (c # cs) 0)
      in max (- (2 ^ 63)) (min (2 ^ 63 - 1) v))"

text \<open>The value of a \<^verbatim>\<open>long\<close> converted to a 32-bit \<^verbatim>\<open>int\<close>.\<close>

definition c_int :: "int \<Rightarrow> int" where
  "c_int x = (x + 2 ^ 31) mod 2 ^ 32 - 2 ^ 31"

definition atoi :: "string \<Rightarrow> int" where
  "atoi s = c_int (strtol s)"





subsection \<open>The renderer: \<^verbatim>\<open>print_file_line\<close> and \<^verbatim>\<open>search_query_callback\<close>\<close>

text \<open>
  The renderer writes to standard output and keeps, in static variables, the source
  file it has open for \<^verbatim>\<open>%s\<close>: its name, the stream (here the lines
  \<^verbatim>\<open>getline\<close> has still to deliver, each with its newline), the number of lines
  read, and the buffer and length of the last line read.
\<close>

record render_state =
  stdout :: string
  sindex_file_name :: "string option"
  sindex_file_fd :: "string list option"
  sindex_file_lnum :: int
  sindex_line :: "string option"
  sindex_line_len :: int

definition printf :: "string \<Rightarrow> render_state \<Rightarrow> render_state" where
  "printf s st = st\<lparr>stdout := stdout st @ s\<rparr>"

text \<open>
  The branch \<^verbatim>\<open>sindex_file_lnum == lnum\<close> of the loop of \<^verbatim>\<open>print_file_line\<close>:
  the newline at the end of the line is cut off and the line is printed. The read of
  \<^verbatim>\<open>sindex_line[sindex_line_len-1]\<close> is undefined when no line has been read or
  the index is outside the buffer.
\<close>

definition print_current_line :: "render_state \<Rightarrow> failure + render_state" where
  "print_current_line st =
     (case sindex_line st of
        None \<Rightarrow> Inl Undefined_behaviour
      | Some l \<Rightarrow>
          let n = sindex_line_len st in
          if n - 1 < 0 \<or> int (length l) < n - 1 then Inl Undefined_behaviour
          else
            let n' = (if nat (n - 1) < length l \<and> l ! nat (n - 1) = CHR 0x0A then n - 1 else n)
            in Inr (printf (take (nat n') l) (st\<lparr>sindex_line_len := n'\<rparr>)))"

text \<open>
  The \<^verbatim>\<open>do ... while (getline(...) != -1)\<close> loop, by recursion on the lines left in
  the stream. At the end of the file \<^verbatim>\<open>getline\<close> returns -1, which is stored in
  \<^verbatim>\<open>sindex_line_len\<close>. Read errors are outside this model of a file, so the
  \<^verbatim>\<open>errno\<close> test after the loop never fires.
\<close>

fun print_file_line_loop :: "int \<Rightarrow> string list \<Rightarrow> render_state \<Rightarrow> failure + render_state" where
  "print_file_line_loop lnum [] st =
     (if sindex_file_lnum st = lnum then print_current_line (st\<lparr>sindex_file_fd := Some []\<rparr>)
      else Inr (st\<lparr>sindex_file_fd := Some [], sindex_file_lnum := sindex_file_lnum st + 1,
                   sindex_line_len := - 1\<rparr>))"
| "print_file_line_loop lnum (l # ls) st =
     (if sindex_file_lnum st = lnum then print_current_line (st\<lparr>sindex_file_fd := Some (l # ls)\<rparr>)
      else print_file_line_loop lnum ls
             (st\<lparr>sindex_file_lnum := sindex_file_lnum st + 1,
                 sindex_line := Some l, sindex_line_len := int (length l)\<rparr>))"

text \<open>
  \<^verbatim>\<open>print_file_line\<close>. The parameter \<open>fopen\<close> is the file system: the lines of
  the named file, or \<open>None\<close> when it cannot be opened.
\<close>

definition print_file_line ::
  "(string \<Rightarrow> string list option) \<Rightarrow> string \<Rightarrow> int \<Rightarrow> render_state \<Rightarrow> failure + render_state" where
  "print_file_line fopen name lnum st =
     (if sindex_file_name st = None \<or> sindex_file_name st \<noteq> Some name then
        (case fopen name of
           None \<Rightarrow> Inl (Fopen_failed name)
         | Some ls \<Rightarrow>
             print_file_line_loop lnum ls
               (st\<lparr>sindex_file_name := Some name, sindex_file_fd := Some ls,
                   sindex_file_lnum := 0\<rparr>))
      else
        (case sindex_file_fd st of
           None \<Rightarrow> Inl Undefined_behaviour
         | Some ls \<Rightarrow> print_file_line_loop lnum ls st))"

text \<open>
  \<^verbatim>\<open>print_mode\<close> on the text of the mode column: \<^verbatim>\<open>int v = atoi(value)\<close>,
  then the characters for \<open>v\<close>.
\<close>

definition print_mode :: "dissect_h \<Rightarrow> string \<Rightarrow> render_state \<Rightarrow> render_state" where
  "print_mode H val st = printf (print_mode_int H (atoi val)) st"

text \<open>
  The local buffer \<^verbatim>\<open>buf[32]\<close> with its fill count \<^verbatim>\<open>n\<close> is the list of the
  characters in it. \<^verbatim>\<open>if (n) { printf("%.*s", n, buf); n = 0; }\<close> prints the list;
  the caller continues with the empty buffer.
\<close>

definition flush_buf :: "string \<Rightarrow> render_state \<Rightarrow> render_state" where
  "flush_buf buf st = printf buf st"

text \<open>
  The end of the loop body: \<^verbatim>\<open>if (n == sizeof(buf)) { flush } buf[n++] = c\<close>.
\<close>

definition buf_append :: "char \<Rightarrow> string \<Rightarrow> render_state \<Rightarrow> string \<times> render_state" where
  "buf_append c buf st =
     (if length buf = 32 then ([c], flush_buf buf st) else (buf @ [c], st))"

text \<open>
  The \<^verbatim>\<open>switch\<close> on the character after \<^verbatim>\<open>%\<close>. \<open>argv\<close> holds the seven
  columns of the row as text. The label \<^verbatim>\<open>case -1\<close> that carries
  \<^verbatim>\<open>print_string\<close> is taken by the byte 0xFF where \<^verbatim>\<open>char\<close> is signed
  (\<open>char_signed\<close>), with \<^verbatim>\<open>colnum\<close> still 0. When no case matches, \<^verbatim>\<open>fmt\<close> has
  not moved and the format specification is invalid.
\<close>

definition format_directive ::
  "dissect_h \<Rightarrow> bool \<Rightarrow> (string \<Rightarrow> string list option) \<Rightarrow> string list \<Rightarrow>
   char \<Rightarrow> string \<Rightarrow> render_state \<Rightarrow> failure + render_state" where
  "format_directive H char_signed fopen argv c buf st =
     (if c = CHR ''f'' then Inr (printf (argv ! 0) (flush_buf buf st))
      else if c = CHR ''l'' then Inr (printf (argv ! 1) (flush_buf buf st))
      else if c = CHR ''c'' then Inr (printf (argv ! 2) (flush_buf buf st))
      else if c = CHR ''C'' then Inr (printf (argv ! 3) (flush_buf buf st))
      else if c = CHR ''n'' then Inr (printf (argv ! 4) (flush_buf buf st))
      else if c = CHR ''m'' then Inr (print_mode H (argv ! 5) (flush_buf buf st))
      else if c = CHR ''k'' then Inr (printf [char_of (atoi (argv ! 6))] (flush_buf buf st))
      else if c = CHR ''s'' then print_file_line fopen (argv ! 0) (atoi (argv ! 1)) (flush_buf buf st)
      else if char_signed \<and> c = CHR 0xFF then Inr (printf (argv ! 0) (flush_buf buf st))
      else Inl (Format_spec c))"

text \<open>
  The \<^verbatim>\<open>switch\<close> of the branch \<^verbatim>\<open>if (quote)\<close>: the character that stands
  for the one after a backslash.
\<close>

definition escape_char :: "char \<Rightarrow> char" where
  "escape_char c =
     (if c = CHR ''t'' then CHR 0x09
      else if c = CHR ''r'' then CHR 0x0D
      else if c = CHR ''n'' then CHR 0x0A
      else c)"

text \<open>
  The \<^verbatim>\<open>while (*fmt != '\0')\<close> loop of \<^verbatim>\<open>search_query_callback\<close>. Its result is
  the value of the locals \<^verbatim>\<open>quote\<close> and \<^verbatim>\<open>buf\<close> and the state at the end of the
  template.
\<close>

fun fmt_loop ::
  "dissect_h \<Rightarrow> bool \<Rightarrow> (string \<Rightarrow> string list option) \<Rightarrow> string list \<Rightarrow>
   string \<Rightarrow> bool \<Rightarrow> string \<Rightarrow> render_state \<Rightarrow> failure + bool \<times> string \<times> render_state" where
  "fmt_loop H char_signed fopen argv [] quote buf st = Inr (quote, buf, st)"
| "fmt_loop H char_signed fopen argv (c # fmt) quote buf st =
     (if quote then
        (case buf_append (escape_char c) buf st of
           (buf', st') \<Rightarrow> fmt_loop H char_signed fopen argv fmt False buf' st')
      else if c = CHR ''%'' then
        (case fmt of
           [] \<Rightarrow> Inl Format_end
         | d # fmt' \<Rightarrow>
             (case format_directive H char_signed fopen argv d buf st of
                Inl e \<Rightarrow> Inl e
              | Inr st' \<Rightarrow> fmt_loop H char_signed fopen argv fmt' False [] st'))
      else if c = CHR 0x5C then fmt_loop H char_signed fopen argv fmt True buf st
      else
        (case buf_append c buf st of
           (buf', st') \<Rightarrow> fmt_loop H char_signed fopen argv fmt False buf' st'))"

text \<open>
  \<^verbatim>\<open>search_query_callback\<close> for one row: the loop from \<^verbatim>\<open>quote = 0\<close>,
  \<^verbatim>\<open>n = 0\<close>, then the rest of the buffer and a newline.
\<close>

definition search_query_callback ::
  "dissect_h \<Rightarrow> bool \<Rightarrow> (string \<Rightarrow> string list option) \<Rightarrow> string list \<Rightarrow>
   string \<Rightarrow> render_state \<Rightarrow> failure + render_state" where
  "search_query_callback H char_signed fopen argv fmt st =
     (case fmt_loop H char_signed fopen argv fmt False [] st of
        Inl e \<Rightarrow> Inl e
      | Inr (quote, buf, st') \<Rightarrow> Inr (printf [CHR 0x0A] (flush_buf buf st')))"

text \<open>The state of a process that has printed nothing and has no file open.\<close>

definition render_init :: render_state where
  "render_init =
     \<lparr>stdout = [], sindex_file_name = None, sindex_file_fd = None, sindex_file_lnum = 0,
      sindex_line = None, sindex_line_len = 0\<rparr>"

text \<open>
  A result row for the examples: the columns \<^verbatim>\<open>file.name, line, column, context,
  symbol, mode, kind\<close> as text.
\<close>

definition row0 :: "string list" where
  "row0 = [''a.c'', ''2'', ''26'', ''f'', ''x'', ''4'', ''118'']"

subsection \<open>The store\<close>

text \<open>
  The two tables of \<^verbatim>\<open>open_database\<close>. A row of \<^verbatim>\<open>file\<close> has the columns
  \<^verbatim>\<open>id\<close>, \<^verbatim>\<open>name\<close>, \<^verbatim>\<open>mtime\<close>; a row of \<^verbatim>\<open>sindex\<close> the columns
  \<^verbatim>\<open>file\<close>, \<^verbatim>\<open>line\<close>, \<^verbatim>\<open>column\<close>, \<^verbatim>\<open>symbol\<close>, \<^verbatim>\<open>kind\<close>,
  \<^verbatim>\<open>context\<close>, \<^verbatim>\<open>mode\<close>. A table is the list of its rows in insertion order.
  \<open>file_seq\<close> is the counter that \<^verbatim>\<open>AUTOINCREMENT\<close> keeps for \<^verbatim>\<open>file\<close>: the
  largest id a row of the table ever had.
\<close>

record file_row =
  f_id :: int
  f_name :: string
  f_mtime :: int

record index_row =
  col_file :: int
  col_line :: int
  col_column :: int
  col_symbol :: string
  col_kind :: int
  col_context :: string
  col_mode :: int

record database =
  files :: "file_row list"
  file_seq :: int
  sindex :: "index_row list"

text \<open>The columns of the unique index \<^verbatim>\<open>sindex_0\<close>.\<close>

definition index_key :: "index_row \<Rightarrow> string \<times> int \<times> int \<times> int \<times> int \<times> int" where
  "index_key r = (col_symbol r, col_kind r, col_mode r, col_file r, col_line r, col_column r)"

text \<open>\<^verbatim>\<open>SELECT id, mtime FROM file WHERE name == @name\<close>: the first row, if any.\<close>

definition select_file :: "string \<Rightarrow> database \<Rightarrow> (int \<times> int) option" where
  "select_file name d =
     (case find (\<lambda>r. f_name r = name) (files d) of
        None \<Rightarrow> None
      | Some r \<Rightarrow> Some (f_id r, f_mtime r))"

text \<open>
  \<^verbatim>\<open>DELETE FROM file WHERE name == @name\<close>. Foreign keys are on and
  \<^verbatim>\<open>sindex.file\<close> refers to \<^verbatim>\<open>file(id)\<close> with \<^verbatim>\<open>ON DELETE CASCADE\<close>, so the
  rows of \<^verbatim>\<open>sindex\<close> whose file is the id of a deleted row go with it.
\<close>

definition delete_file :: "string \<Rightarrow> database \<Rightarrow> database" where
  "delete_file name d =
     d\<lparr>files := filter (\<lambda>r. f_name r \<noteq> name) (files d),
       sindex := filter (\<lambda>r. col_file r \<notin> set (map f_id (filter (\<lambda>r. f_name r = name) (files d))))
                   (sindex d)\<rparr>"

text \<open>The id \<^verbatim>\<open>AUTOINCREMENT\<close> gives the next row.\<close>

definition next_rowid :: "database \<Rightarrow> int" where
  "next_rowid d = fold max (map f_id (files d)) (file_seq d) + 1"

text \<open>
  \<^verbatim>\<open>INSERT INTO file (name, mtime) VALUES (@name, @mtime)\<close> followed by
  \<^verbatim>\<open>sqlite3_last_insert_rowid\<close>. The statement fails on a name that is in the table
  (\<^verbatim>\<open>name TEXT UNIQUE\<close>), and \<^verbatim>\<open>sqlite_run\<close> makes that a fatal error.
\<close>

definition insert_file :: "string \<Rightarrow> int \<Rightarrow> database \<Rightarrow> failure + int \<times> database" where
  "insert_file name mtime d =
     (if name \<in> set (map f_name (files d)) then Inl Query_failed
      else
        let i = next_rowid d
        in Inr (i, d\<lparr>files := files d @ [\<lparr>f_id = i, f_name = name, f_mtime = mtime\<rparr>],
                     file_seq := i\<rparr>))"

text \<open>
  \<^verbatim>\<open>INSERT OR IGNORE INTO sindex SELECT * FROM tempdb.sindex\<close>, row by row. A row
  whose key is in the unique index is skipped. A row that is inserted with a file id
  that no row of \<^verbatim>\<open>file\<close> has violates the foreign key; \<^verbatim>\<open>OR IGNORE\<close> does not
  cover that, the statement fails and \<^verbatim>\<open>sqlite_command\<close> makes it a fatal error.
\<close>

fun merge_rows :: "index_row list \<Rightarrow> database \<Rightarrow> failure + database" where
  "merge_rows [] d = Inr d"
| "merge_rows (r # rs) d =
     (if index_key r \<in> set (map index_key (sindex d)) then merge_rows rs d
      else if col_file r \<notin> set (map f_id (files d)) then Inl Query_failed
      else merge_rows rs (d\<lparr>sindex := sindex d @ [r]\<rparr>))"

subsection \<open>The frontend's data\<close>

text \<open>
  The types \<^verbatim>\<open>struct stream\<close>, \<^verbatim>\<open>struct position\<close>, \<^verbatim>\<open>struct symbol\<close> and
  \<^verbatim>\<open>struct ident\<close> are declared by the frontend, outside this source file. Only the
  members \<^verbatim>\<open>sindex.c\<close> reads are kept. An identifier (\<^verbatim>\<open>struct ident\<close>, with its
  \<^verbatim>\<open>name\<close> and \<^verbatim>\<open>len\<close>) is the string of its name, \<^verbatim>\<open>len\<close> being its length;
  a null \<^verbatim>\<open>ident\<close> pointer is \<open>None\<close>. \<open>sym_local\<close> is the value of
  \<^verbatim>\<open>sym_is_local(sym)\<close>.
\<close>

record stream =
  s_fd :: int
  s_name :: string

record position =
  pos_stream :: nat
  pos_line :: int
  pos_pos :: int

record symbol =
  sym_ident :: "string option"
  sym_kind :: int
  sym_pos :: position
  sym_local :: bool

text \<open>
  What an \<^verbatim>\<open>add\<close> run reads from outside: the working directory \<^verbatim>\<open>cwd\<close>, the
  frontend's array \<^verbatim>\<open>input_streams\<close> as it is at the end of the run (the frontend
  only appends to it), the results of \<^verbatim>\<open>stat\<close> (the \<^verbatim>\<open>st_mtime\<close>, or \<open>None\<close>
  when it fails) and of \<^verbatim>\<open>realpath\<close> per path, and the option
  \<^verbatim>\<open>--include-local-syms\<close>.
\<close>

record add_env =
  cwd :: string
  input_streams :: "stream list"
  stat_mtime :: "string \<Rightarrow> int option"
  realpath :: "string \<Rightarrow> string option"
  sindex_include_local_syms :: bool

text \<open>
  The variables an \<^verbatim>\<open>add\<close> run writes: the database, the staging table
  \<^verbatim>\<open>tempdb.sindex\<close>, and the array \<^verbatim>\<open>sindex_streams\<close> of the ids;
  \<^verbatim>\<open>sindex_streams_nr\<close> is its length.
\<close>

record add_state =
  db :: database
  tempdb :: "index_row list"
  sindex_streams :: "int list"

subsection \<open>\<^verbatim>\<open>update_stream\<close>\<close>

text \<open>
  \<^verbatim>\<open>!strncmp(fullname, cwd, n_cwd) && fullname[n_cwd] == '/'\<close>.
\<close>

definition under_root :: "string \<Rightarrow> string \<Rightarrow> bool" where
  "under_root root fullname \<longleftrightarrow>
     take (length root) fullname = root \<and> length root < length fullname \<and>
     fullname ! length root = CHR ''/''"

text \<open>
  The first half of the body of the loop for stream \<open>i\<close>, up to the two
  \<^verbatim>\<open>continue\<close>: a fatal error of \<^verbatim>\<open>stat\<close> or \<^verbatim>\<open>realpath\<close>, or \<open>None\<close> when
  the slot is set to -1, or \<^verbatim>\<open>filename\<close> and \<^verbatim>\<open>cur_mtime\<close>. Reading
  \<^verbatim>\<open>input_streams[i]\<close> beyond the array is undefined.
\<close>

definition stream_file :: "add_env \<Rightarrow> nat \<Rightarrow> failure + (string \<times> int) option" where
  "stream_file env i =
     (if length (input_streams env) \<le> i then Inl Undefined_behaviour
      else
        let s = input_streams env ! i in
        if s_fd s \<noteq> - 1 then
          (case stat_mtime env (s_name s) of
             None \<Rightarrow> Inl (Stat_failed (s_name s))
           | Some cur_mtime \<Rightarrow>
               (case realpath env (s_name s) of
                  None \<Rightarrow> Inl (Realpath_failed (s_name s))
                | Some fullname \<Rightarrow>
                    if under_root (cwd env) fullname
                    then Inr (Some (drop (length (cwd env) + 1) fullname, cur_mtime))
                    else Inr None))
        else Inr None)"

text \<open>
  The second half: the lookup of the file record, the deletion of a stale one, the
  insertion, and the id stored in the slot of the stream. The slot written is the
  next one of \<^verbatim>\<open>sindex_streams\<close>.
\<close>

definition register_file :: "string \<Rightarrow> int \<Rightarrow> add_state \<Rightarrow> failure + add_state" where
  "register_file filename cur_mtime st =
     (case select_file filename (db st) of
        Some (old_id, old_mtime) \<Rightarrow>
          if cur_mtime = old_mtime
          then Inr (st\<lparr>sindex_streams := sindex_streams st @ [old_id]\<rparr>)
          else
            (case insert_file filename cur_mtime (delete_file filename (db st)) of
               Inl e \<Rightarrow> Inl e
             | Inr (new_id, d) \<Rightarrow> Inr (st\<lparr>db := d, sindex_streams := sindex_streams st @ [new_id]\<rparr>))
      | None \<Rightarrow>
          (case insert_file filename cur_mtime (db st) of
             Inl e \<Rightarrow> Inl e
           | Inr (new_id, d) \<Rightarrow> Inr (st\<lparr>db := d, sindex_streams := sindex_streams st @ [new_id]\<rparr>)))"

definition update_stream_one :: "add_env \<Rightarrow> nat \<Rightarrow> add_state \<Rightarrow> failure + add_state" where
  "update_stream_one env i st =
     (case stream_file env i of
        Inl e \<Rightarrow> Inl e
      | Inr None \<Rightarrow> Inr (st\<lparr>sindex_streams := sindex_streams st @ [- 1]\<rparr>)
      | Inr (Some (filename, cur_mtime)) \<Rightarrow> register_file filename cur_mtime st)"

text \<open>The loop \<^verbatim>\<open>for (i = sindex_streams_nr; i < input_stream_nr; i++)\<close>.\<close>

fun update_stream_loop :: "add_env \<Rightarrow> nat list \<Rightarrow> add_state \<Rightarrow> failure + add_state" where
  "update_stream_loop env [] st = Inr st"
| "update_stream_loop env (i # rest) st =
     (case update_stream_one env i st of
        Inl e \<Rightarrow> Inl e
      | Inr st' \<Rightarrow> update_stream_loop env rest st')"

text \<open>
  \<^verbatim>\<open>update_stream\<close>, called with the current \<^verbatim>\<open>input_stream_nr\<close>. The statements
  \<^verbatim>\<open>BEGIN IMMEDIATE\<close> and \<^verbatim>\<open>COMMIT\<close> around the loop do not change the tables.
\<close>

definition update_stream :: "add_env \<Rightarrow> nat \<Rightarrow> add_state \<Rightarrow> failure + add_state" where
  "update_stream env input_stream_nr st =
     (if input_stream_nr \<le> length (sindex_streams st) then Inr st
      else update_stream_loop env [length (sindex_streams st)..<input_stream_nr] st)"

subsection \<open>The reporter: \<^verbatim>\<open>insert_record\<close>, \<^verbatim>\<open>r_symbol\<close>, \<^verbatim>\<open>r_member\<close>\<close>

text \<open>\<^verbatim>\<open>struct index_record\<close>, without the member \<^verbatim>\<open>mtime\<close> that nothing sets.\<close>

record index_record =
  rec_context :: string
  ctx_len :: int
  rec_symbol :: string
  sym_len :: int
  rec_kind :: int
  rec_mode :: int
  rec_file :: int
  rec_line :: int
  rec_col :: int

text \<open>
  \<^verbatim>\<open>sqlite3_bind_text\<close> with an explicit length takes that many bytes. A length
  beyond the end of the string reads bytes that this model of a string does not have.
\<close>

definition bind_text :: "string \<Rightarrow> int \<Rightarrow> failure + string" where
  "bind_text s n =
     (if n < 0 then Inr s
      else if nat n \<le> length s then Inr (take (nat n) s)
      else Inl Undefined_behaviour)"

text \<open>
  \<^verbatim>\<open>insert_record\<close>: \<^verbatim>\<open>INSERT OR IGNORE INTO tempdb.sindex\<close>. The staging table is
  created by \<^verbatim>\<open>open_temp_database\<close> with its columns only: it has no unique index, so
  no row is ever a duplicate for it and every row bound here is stored.
\<close>

definition insert_record :: "index_record \<Rightarrow> add_state \<Rightarrow> failure + add_state" where
  "insert_record rec st =
     (case bind_text (rec_context rec) (ctx_len rec) of
        Inl e \<Rightarrow> Inl e
      | Inr ctx \<Rightarrow>
          (case bind_text (rec_symbol rec) (sym_len rec) of
             Inl e \<Rightarrow> Inl e
           | Inr sy \<Rightarrow>
               Inr (st\<lparr>tempdb := tempdb st @
                      [\<lparr>col_file = rec_file rec, col_line = rec_line rec, col_column = rec_col rec,
                        col_symbol = sy, col_kind = rec_kind rec, col_context = ctx,
                        col_mode = rec_mode rec\<rparr>]\<rparr>)))"

text \<open>
  The identifier of the context: the static, empty \<^verbatim>\<open>null\<close> when \<^verbatim>\<open>dissect_ctx\<close>
  is null, else \<^verbatim>\<open>dissect_ctx->ident\<close>, which is read without a test.
\<close>

definition ctx_ident :: "symbol option \<Rightarrow> failure + string" where
  "ctx_ident dissect_ctx =
     (case dissect_ctx of
        None \<Rightarrow> Inr []
      | Some c \<Rightarrow> (case sym_ident c of None \<Rightarrow> Inl Undefined_behaviour | Some n \<Rightarrow> Inr n))"

text \<open>
  \<^verbatim>\<open>r_symbol\<close>. \<open>input_stream_nr\<close> and \<open>dissect_ctx\<close> are the frontend's variables
  at the time of the call. The warning for an empty identifier goes to the error
  stream and changes nothing here.
\<close>

definition r_symbol ::
  "add_env \<Rightarrow> nat \<Rightarrow> symbol option \<Rightarrow> int \<Rightarrow> position \<Rightarrow> symbol \<Rightarrow> add_state \<Rightarrow> failure + add_state" where
  "r_symbol env input_stream_nr dissect_ctx mode pos sy st =
     (case update_stream env input_stream_nr st of
        Inl e \<Rightarrow> Inl e
      | Inr st1 \<Rightarrow>
          if length (sindex_streams st1) \<le> pos_stream pos then Inl Undefined_behaviour
          else if sindex_streams st1 ! pos_stream pos = - 1 then Inr st1
          else if \<not> sindex_include_local_syms env \<and> sym_local sy then Inr st1
          else
            (case sym_ident sy of
               None \<Rightarrow> Inr st1
             | Some name \<Rightarrow>
                 (case ctx_ident dissect_ctx of
                    Inl e \<Rightarrow> Inl e
                  | Inr ctx \<Rightarrow>
                      insert_record
                        \<lparr>rec_context = ctx, ctx_len = int (length ctx),
                         rec_symbol = name, sym_len = int (length name),
                         rec_kind = sym_kind sy, rec_mode = mode,
                         rec_file = sindex_streams st1 ! pos_stream pos,
                         rec_line = pos_line pos, rec_col = pos_pos pos\<rparr> st1)))"

text \<open>
  Modelled from the spec: \<^verbatim>\<open>built_in_ident\<close>, the identifier interning facility
  of the frontend, is not part of this source file; it gives the identifier of the
  text it is passed.
\<close>

definition built_in_ident :: "string \<Rightarrow> string" where
  "built_in_ident s = s"

text \<open>
  \<^verbatim>\<open>snprintf(memname, sizeof(memname), "%.*s.%.*s", ...)\<close> into the 1024 bytes of
  \<^verbatim>\<open>memname\<close>: at most 1023 characters are kept.
\<close>

definition memname :: "string \<Rightarrow> string \<Rightarrow> string" where
  "memname si mi = take 1023 (si @ ''.'' @ mi)"

text \<open>\<^verbatim>\<open>r_member\<close>; \<open>mem = None\<close> is the null pointer.\<close>

definition r_member ::
  "add_env \<Rightarrow> nat \<Rightarrow> symbol option \<Rightarrow> int \<Rightarrow> position \<Rightarrow> symbol \<Rightarrow> symbol option \<Rightarrow>
   add_state \<Rightarrow> failure + add_state" where
  "r_member env input_stream_nr dissect_ctx mode pos sy mem st =
     (case update_stream env input_stream_nr st of
        Inl e \<Rightarrow> Inl e
      | Inr st1 \<Rightarrow>
          if length (sindex_streams st1) \<le> pos_stream pos then Inl Undefined_behaviour
          else if sindex_streams st1 ! pos_stream pos = - 1 then Inr st1
          else if \<not> sindex_include_local_syms env \<and> sym_local sy then Inr st1
          else
            let ni = built_in_ident ''?'';
                si = (case sym_ident sy of None \<Rightarrow> ni | Some n \<Rightarrow> n);
                mi = (case mem of
                        None \<Rightarrow> built_in_ident ''*''
                      | Some m \<Rightarrow> (case sym_ident m of None \<Rightarrow> ni | Some n \<Rightarrow> n))
            in
              (case ctx_ident dissect_ctx of
                 Inl e \<Rightarrow> Inl e
               | Inr ctx \<Rightarrow>
                   insert_record
                     \<lparr>rec_context = ctx, ctx_len = int (length ctx),
                      rec_symbol = memname si mi,
                      sym_len = int (length si) + int (length mi) + 1,
                      rec_kind = of_char (CHR ''m''), rec_mode = mode,
                      rec_file = sindex_streams st1 ! pos_stream pos,
                      rec_line = pos_line pos, rec_col = pos_pos pos\<rparr> st1))"

definition r_symdef ::
  "dissect_h \<Rightarrow> add_env \<Rightarrow> nat \<Rightarrow> symbol option \<Rightarrow> symbol \<Rightarrow> add_state \<Rightarrow> failure + add_state" where
  "r_symdef H env input_stream_nr dissect_ctx sy st =
     r_symbol env input_stream_nr dissect_ctx (U_DEF H) (sym_pos sy) sy st"

definition r_memdef ::
  "dissect_h \<Rightarrow> add_env \<Rightarrow> nat \<Rightarrow> symbol option \<Rightarrow> symbol \<Rightarrow> symbol \<Rightarrow> add_state \<Rightarrow>
   failure + add_state" where
  "r_memdef H env input_stream_nr dissect_ctx sy mem st =
     r_member env input_stream_nr dissect_ctx (U_DEF H) (sym_pos mem) sy (Some mem) st"

subsection \<open>\<^verbatim>\<open>command_add\<close>\<close>

text \<open>
  Modelled from the spec: \<^verbatim>\<open>dissect\<close>, the frontend's driver, is not part of this
  source file; it consumes the reporter and calls its four functions sequentially. A
  run of it is the sequence of the calls it makes, each with the values that
  \<^verbatim>\<open>input_stream_nr\<close> and \<^verbatim>\<open>dissect_ctx\<close> have at the call.
\<close>

datatype reporter_call =
    R_symdef symbol
  | R_symbol int position symbol
  | R_memdef symbol symbol
  | R_member int position symbol "symbol option"

record event =
  ev_stream_nr :: nat
  ev_ctx :: "symbol option"
  ev_call :: reporter_call

fun report :: "dissect_h \<Rightarrow> add_env \<Rightarrow> event \<Rightarrow> add_state \<Rightarrow> failure + add_state" where
  "report H env ev st =
     (case ev_call ev of
        R_symdef sy \<Rightarrow> r_symdef H env (ev_stream_nr ev) (ev_ctx ev) sy st
      | R_symbol mode pos sy \<Rightarrow> r_symbol env (ev_stream_nr ev) (ev_ctx ev) mode pos sy st
      | R_memdef sy mem \<Rightarrow> r_memdef H env (ev_stream_nr ev) (ev_ctx ev) sy mem st
      | R_member mode pos sy mem \<Rightarrow> r_member env (ev_stream_nr ev) (ev_ctx ev) mode pos sy mem st)"

fun dissect :: "dissect_h \<Rightarrow> add_env \<Rightarrow> event list \<Rightarrow> add_state \<Rightarrow> failure + add_state" where
  "dissect H env [] st = Inr st"
| "dissect H env (ev # evs) st =
     (case report H env ev st of
        Inl e \<Rightarrow> Inl e
      | Inr st' \<Rightarrow> dissect H env evs st')"

text \<open>The position a call reports.\<close>

fun call_pos :: "reporter_call \<Rightarrow> position" where
  "call_pos (R_symdef sy) = sym_pos sy"
| "call_pos (R_symbol mode pos sy) = pos"
| "call_pos (R_memdef sy mem) = sym_pos mem"
| "call_pos (R_member mode pos sy mem) = pos"

text \<open>
  \<^verbatim>\<open>command_add\<close> on a database: the staging table is created empty,
  \<^verbatim>\<open>sindex_streams\<close> is empty, the frontend runs, and the staging table is merged
  into \<^verbatim>\<open>sindex\<close>.
\<close>

definition add_init :: "database \<Rightarrow> add_state" where
  "add_init d = \<lparr>db = d, tempdb = [], sindex_streams = []\<rparr>"

definition command_add :: "dissect_h \<Rightarrow> add_env \<Rightarrow> event list \<Rightarrow> database \<Rightarrow> failure + database" where
  "command_add H env evs d =
     (case dissect H env evs (add_init d) of
        Inl e \<Rightarrow> Inl e
      | Inr st \<Rightarrow> merge_rows (tempdb st) (db st))"

subsection \<open>Properties of a run, for the statements below\<close>

text \<open>
  The results of the first half of the loop body for all streams of the run. Two
  streams may name the same file (\<^verbatim>\<open>FIXME: Files in the input_streams may be
  duplicated\<close>); \<open>stable_mtimes\<close> says that \<^verbatim>\<open>stat\<close> then gives both the same
  mtime, as it does when the file is not touched while the run lasts.
\<close>

definition stream_files :: "add_env \<Rightarrow> (failure + (string \<times> int) option) list" where
  "stream_files env = map (stream_file env) [0..<length (input_streams env)]"

definition stable_mtimes :: "add_env \<Rightarrow> bool" where
  "stable_mtimes env \<longleftrightarrow>
     (\<forall>x \<in> set (stream_files env). \<forall>y \<in> set (stream_files env).
        case (x, y) of
          (Inr (Some (f, m)), Inr (Some (f', m'))) \<Rightarrow> f = f' \<longrightarrow> m = m'
        | _ \<Rightarrow> True)"

text \<open>
  The slots of \<^verbatim>\<open>sindex_streams\<close> agree with the \<^verbatim>\<open>file\<close> table: an ignored
  stream has -1, any other the id of the record that has its name and its mtime.
\<close>

definition streams_inv :: "add_env \<Rightarrow> int list \<Rightarrow> database \<Rightarrow> bool" where
  "streams_inv env ids d \<longleftrightarrow>
     (\<forall>i < length ids.
        case stream_file env i of
          Inl e \<Rightarrow> False
        | Inr None \<Rightarrow> ids ! i = - 1
        | Inr (Some (f, m)) \<Rightarrow> select_file f d = Some (ids ! i, m))"

text \<open>
  The slots of the ignored streams hold -1, and no slot belongs to a stream for which
  \<^verbatim>\<open>stat\<close> or \<^verbatim>\<open>realpath\<close> failed.
\<close>

definition ignored_inv :: "add_env \<Rightarrow> int list \<Rightarrow> bool" where
  "ignored_inv env ids \<longleftrightarrow>
     (\<forall>i < length ids.
        case stream_file env i of
          Inl e \<Rightarrow> False
        | Inr None \<Rightarrow> ids ! i = - 1
        | Inr (Some fm) \<Rightarrow> True)"

text \<open>
  The constraints the schema puts on a database: \<^verbatim>\<open>name TEXT UNIQUE\<close>,
  \<^verbatim>\<open>id INTEGER PRIMARY KEY AUTOINCREMENT\<close> (ids are unique and none is above the
  counter), and the foreign key of \<^verbatim>\<open>sindex.file\<close>.
\<close>

definition db_ok :: "database \<Rightarrow> bool" where
  "db_ok d \<longleftrightarrow>
     distinct (map f_name (files d)) \<and> distinct (map f_id (files d)) \<and>
     (\<forall>r \<in> set (files d). f_id r \<le> file_seq d) \<and>
     (\<forall>r \<in> set (sindex d). col_file r \<in> set (map f_id (files d)))"

text \<open>
  The aggregate and the member of a member call: \<^verbatim>\<open>r_member\<close> gets them as they
  are, \<^verbatim>\<open>r_memdef\<close> passes a member that is not null.
\<close>

fun member_call :: "reporter_call \<Rightarrow> (symbol \<times> symbol option) option" where
  "member_call (R_member mode pos sy mem) = Some (sy, mem)"
| "member_call (R_memdef sy mem) = Some (sy, Some mem)"
| "member_call _ = None"

text \<open>The two components of the composite name, in the specification's words.\<close>

definition tag_name :: "symbol \<Rightarrow> string" where
  "tag_name sy = (case sym_ident sy of None \<Rightarrow> ''?'' | Some n \<Rightarrow> n)"

definition member_name :: "symbol option \<Rightarrow> string" where
  "member_name mem =
     (case mem of
        None \<Rightarrow> ''*''
      | Some m \<Rightarrow> (case sym_ident m of None \<Rightarrow> ''?'' | Some n \<Rightarrow> n))"

subsection \<open>A small project, for the examples\<close>

text \<open>
  The project root is \<^verbatim>\<open>/p\<close>. The frontend has three streams: its built-in one,
  without a file; \<^verbatim>\<open>a.c\<close> of the project; and a header outside the project.
  \<^verbatim>\<open>a.c\<close> is \<^verbatim>\<open>int x; int f(void){ return x; }\<close> on two lines, the header
  declares \<^verbatim>\<open>y\<close>.
\<close>

definition env0 :: add_env where
  "env0 =
     \<lparr>cwd = ''/p'',
      input_streams =
        [\<lparr>s_fd = - 1, s_name = ''builtin''\<rparr>, \<lparr>s_fd = 3, s_name = ''a.c''\<rparr>,
         \<lparr>s_fd = 4, s_name = ''/usr/include/y.h''\<rparr>],
      stat_mtime =
        (\<lambda>n. if n = ''a.c'' then Some 100
             else if n = ''/usr/include/y.h'' then Some 50 else None),
      realpath =
        (\<lambda>n. if n = ''a.c'' then Some ''/p/a.c''
             else if n = ''/usr/include/y.h'' then Some ''/usr/include/y.h'' else None),
      sindex_include_local_syms = False\<rparr>"

definition sym_x :: symbol where
  "sym_x = \<lparr>sym_ident = Some ''x'', sym_kind = 118,
            sym_pos = \<lparr>pos_stream = 1, pos_line = 1, pos_pos = 5\<rparr>, sym_local = False\<rparr>"

definition sym_f :: symbol where
  "sym_f = \<lparr>sym_ident = Some ''f'', sym_kind = 102,
            sym_pos = \<lparr>pos_stream = 1, pos_line = 2, pos_pos = 5\<rparr>, sym_local = False\<rparr>"

definition sym_y :: symbol where
  "sym_y = \<lparr>sym_ident = Some ''y'', sym_kind = 118,
            sym_pos = \<lparr>pos_stream = 2, pos_line = 1, pos_pos = 12\<rparr>, sym_local = False\<rparr>"

definition events0 :: "event list" where
  "events0 =
     [\<lparr>ev_stream_nr = 2, ev_ctx = None, ev_call = R_symdef sym_x\<rparr>,
      \<lparr>ev_stream_nr = 2, ev_ctx = None, ev_call = R_symdef sym_f\<rparr>,
      \<lparr>ev_stream_nr = 2, ev_ctx = Some sym_f,
       ev_call = R_symbol 4 \<lparr>pos_stream = 1, pos_line = 2, pos_pos = 26\<rparr> sym_x\<rparr>]"

definition event_y :: event where
  "event_y = \<lparr>ev_stream_nr = 3, ev_ctx = None, ev_call = R_symdef sym_y\<rparr>"

definition db_empty :: database where
  "db_empty = \<lparr>files = [], file_seq = 0, sindex = []\<rparr>"

text \<open>The database after \<^verbatim>\<open>add\<close> on the project.\<close>

definition db1 :: database where
  "db1 =
     \<lparr>files = [\<lparr>f_id = 1, f_name = ''a.c'', f_mtime = 100\<rparr>],
      file_seq = 1,
      sindex =
        [\<lparr>col_file = 1, col_line = 1, col_column = 5, col_symbol = ''x'', col_kind = 118,
          col_context = [], col_mode = 65536\<rparr>,
         \<lparr>col_file = 1, col_line = 2, col_column = 5, col_symbol = ''f'', col_kind = 102,
          col_context = [], col_mode = 65536\<rparr>,
         \<lparr>col_file = 1, col_line = 2, col_column = 26, col_symbol = ''x'', col_kind = 118,
          col_context = ''f'', col_mode = 4\<rparr>]\<rparr>"

text \<open>The same project after \<^verbatim>\<open>a.c\<close> has been touched.\<close>

definition env1 :: add_env where
  "env1 =
     env0\<lparr>stat_mtime :=
            (\<lambda>n. if n = ''a.c'' then Some 200
                 else if n = ''/usr/include/y.h'' then Some 50 else None)\<rparr>"

text \<open>A use of a whole aggregate \<^verbatim>\<open>struct s\<close> in \<^verbatim>\<open>f\<close>.\<close>

definition sym_s :: symbol where
  "sym_s = \<lparr>sym_ident = Some ''s'', sym_kind = 115,
            sym_pos = \<lparr>pos_stream = 1, pos_line = 3, pos_pos = 8\<rparr>, sym_local = False\<rparr>"

definition event_member :: event where
  "event_member =
     \<lparr>ev_stream_nr = 2, ev_ctx = Some sym_f,
      ev_call = R_member 4 \<lparr>pos_stream = 1, pos_line = 4, pos_pos = 9\<rparr> sym_s None\<rparr>"

text \<open>Two records for the same point, reported in different contexts.\<close>

definition row_x_in_f :: index_row where
  "row_x_in_f =
     \<lparr>col_file = 1, col_line = 2, col_column = 26, col_symbol = ''x'', col_kind = 118,
      col_context = ''f'', col_mode = 4\<rparr>"

definition row_x_in_g :: index_row where
  "row_x_in_g = row_x_in_f\<lparr>col_context := ''g''\<rparr>"

definition rec_x_in_g :: index_record where
  "rec_x_in_g =
     \<lparr>rec_context = ''g'', ctx_len = 1, rec_symbol = ''x'', sym_len = 1, rec_kind = 118,
      rec_mode = 4, rec_file = 1, rec_line = 2, rec_col = 26\<rparr>"

text \<open>
  The states after \<^verbatim>\<open>update_stream\<close> has registered the two first streams: on the
  indexed project, on the indexed project after \<^verbatim>\<open>a.c\<close> has been touched, and on
  the empty database.
\<close>

definition registered_hit :: add_state where
  "registered_hit = \<lparr>db = db1, tempdb = [], sindex_streams = [- 1, 1]\<rparr>"

definition registered_stale :: add_state where
  "registered_stale =
     \<lparr>db = \<lparr>files = [\<lparr>f_id = 2, f_name = ''a.c'', f_mtime = 200\<rparr>], file_seq = 2,
            sindex = []\<rparr>,
      tempdb = [], sindex_streams = [- 1, 2]\<rparr>"

definition registered_miss :: add_state where
  "registered_miss =
     \<lparr>db = \<lparr>files = [\<lparr>f_id = 1, f_name = ''a.c'', f_mtime = 100\<rparr>], file_seq = 1,
            sindex = []\<rparr>,
      tempdb = [], sindex_streams = [- 1, 1]\<rparr>"

text \<open>
  The states of the run on the project before the merge: after the calls for
  \<^verbatim>\<open>a.c\<close>, after the call for the use of \<^verbatim>\<open>struct s\<close> alone, and after the
  calls for \<^verbatim>\<open>a.c\<close> and the header.
\<close>

definition staged1 :: add_state where
  "staged1 = \<lparr>db = db1\<lparr>sindex := []\<rparr>, tempdb = sindex db1, sindex_streams = [- 1, 1]\<rparr>"

definition staged_member :: add_state where
  "staged_member =
     \<lparr>db = db1\<lparr>sindex := []\<rparr>,
      tempdb = [\<lparr>col_file = 1, col_line = 4, col_column = 9, col_symbol = ''s.*'',
                 col_kind = 109, col_context = ''f'', col_mode = 4\<rparr>],
      sindex_streams = [- 1, 1]\<rparr>"

definition staged_y :: add_state where
  "staged_y = staged1\<lparr>sindex_streams := [- 1, 1, - 1]\<rparr>"









section \<open>Properties\<close>

subsection \<open>Mode masks\<close>







lemma modmask_loop_3:
  "modmask_loop H [a, b, c] 0 0 =
     (if a \<notin> set ''rwm-'' then Inl (Unknown_mode_char a)
      else if b \<notin> set ''rwm-'' then Inl (Unknown_mode_char b)
      else if c \<notin> set ''rwm-'' then Inl (Unknown_mode_char c)
      else Inr (mode_char_bits (U_R_AOF H) (U_W_AOF H) a OR
                mode_char_bits (U_R_VAL H) (U_W_VAL H) b OR
                mode_char_bits (U_R_PTR H) (U_W_PTR H) c))"
  by (simp add: mode_char_bits_def modes_def numeral_3_eq_3 or.assoc)













text \<open>
  C5. A mode string whose length is neither 1 nor 3 is the fatal
  error about the length, with exit status 1. The 1-character forms \<^verbatim>\<open>r\<close>,
  \<^verbatim>\<open>w\<close>, \<^verbatim>\<open>m\<close>, \<^verbatim>\<open>-\<close> give the masks of \<^verbatim>\<open>rrr\<close>, \<^verbatim>\<open>ww-\<close>,
  \<^verbatim>\<open>mmm\<close>, \<^verbatim>\<open>---\<close>. A 3-character form other than the literal
  \<^verbatim>\<open>def\<close> whose characters are all among \<^verbatim>\<open>r w m -\<close> gives the mask in which
  the first character selects bits of the AOF pair, the second of the VAL pair, the
  third of the PTR pair (R bit, W bit, both, none); with any other character it is a
  fatal error with exit status 1. The literal \<^verbatim>\<open>def\<close> is the case of its own
  that \<^verbatim>\<open>set_search_modmask\<close> tests before the 3-character forms.
\<close>

theorem set_search_modmask_forms:
  "(length v \<noteq> 1 \<and> length v \<noteq> 3 \<longrightarrow>
      set_search_modmask H v = Inl Mode_length \<and> exit_status Mode_length = Some 1) \<and>
   set_search_modmask H ''r'' = set_search_modmask H ''rrr'' \<and>
   set_search_modmask H ''w'' = set_search_modmask H ''ww-'' \<and>
   set_search_modmask H ''m'' = set_search_modmask H ''mmm'' \<and>
   set_search_modmask H ''-'' = set_search_modmask H ''---'' \<and>
   ([a, b, c] \<noteq> ''def'' \<longrightarrow>
      (if set [a, b, c] \<subseteq> set ''rwm-'' then
         set_search_modmask H [a, b, c] =
           Inr (mode_char_bits (U_R_AOF H) (U_W_AOF H) a OR
                mode_char_bits (U_R_VAL H) (U_W_VAL H) b OR
                mode_char_bits (U_R_PTR H) (U_W_PTR H) c)
       else (\<exists>x. x \<in> set [a, b, c] \<and> x \<notin> set ''rwm-'' \<and>
                 set_search_modmask H [a, b, c] = Inl (Unknown_mode_char x) \<and>
                 exit_status (Unknown_mode_char x) = Some 1)))"
proof -
  have len: "length v \<noteq> 1 \<and> length v \<noteq> 3 \<longrightarrow>
      set_search_modmask H v = Inl Mode_length \<and> exit_status Mode_length = Some 1"
    by (simp add: set_search_modmask_def)
  have one: "set_search_modmask H ''r'' = set_search_modmask H ''rrr''"
    "set_search_modmask H ''w'' = set_search_modmask H ''ww-''"
    "set_search_modmask H ''m'' = set_search_modmask H ''mmm''"
    "set_search_modmask H ''-'' = set_search_modmask H ''---''"
    by (simp_all add: set_search_modmask_def)
  have three: "[a, b, c] \<noteq> ''def'' \<Longrightarrow>
      set_search_modmask H [a, b, c] = modmask_loop H [a, b, c] 0 0"
    by (simp add: set_search_modmask_def)
  have "[a, b, c] \<noteq> ''def'' \<longrightarrow>
      (if set [a, b, c] \<subseteq> set ''rwm-'' then
         set_search_modmask H [a, b, c] =
           Inr (mode_char_bits (U_R_AOF H) (U_W_AOF H) a OR
                mode_char_bits (U_R_VAL H) (U_W_VAL H) b OR
                mode_char_bits (U_R_PTR H) (U_W_PTR H) c)
       else (\<exists>x. x \<in> set [a, b, c] \<and> x \<notin> set ''rwm-'' \<and>
                 set_search_modmask H [a, b, c] = Inl (Unknown_mode_char x) \<and>
                 exit_status (Unknown_mode_char x) = Some 1))"
  proof
    assume nd: "[a, b, c] \<noteq> ''def''"
    show "if set [a, b, c] \<subseteq> set ''rwm-'' then
         set_search_modmask H [a, b, c] =
           Inr (mode_char_bits (U_R_AOF H) (U_W_AOF H) a OR
                mode_char_bits (U_R_VAL H) (U_W_VAL H) b OR
                mode_char_bits (U_R_PTR H) (U_W_PTR H) c)
       else (\<exists>x. x \<in> set [a, b, c] \<and> x \<notin> set ''rwm-'' \<and>
                 set_search_modmask H [a, b, c] = Inl (Unknown_mode_char x) \<and>
                 exit_status (Unknown_mode_char x) = Some 1)"
      unfolding three[OF nd] modmask_loop_3 by auto
  qed
  with len one show ?thesis by blast
qed

theorem set_search_modmask_forms_witness:
  "length ''rw'' \<noteq> 1 \<and> length ''rw'' \<noteq> 3 \<and>
   set_search_modmask sparse_dissect_h ''rw'' = Inl Mode_length \<and>
   ''rwm'' \<noteq> ''def'' \<and> set ''rwm'' \<subseteq> set ''rwm-'' \<and>
   set_search_modmask sparse_dissect_h ''rwm'' = Inr 3081"
  using set_search_modmask_forms [of "''rw''" sparse_dissect_h "CHR ''r''" "CHR ''w''" "CHR ''m''"]
  by (simp add: mode_char_bits_def sparse_dissect_h_def)












subsection \<open>The format template\<close>

text \<open>
  A prefix of the template that the loop scans to its end without a fatal exit can be
  cut off: the loop on the whole template continues after it with the locals and the
  state the prefix leaves.
\<close>

lemma fmt_loop_append:
  "fmt_loop H sc fs argv pre q buf st = Inr (q1, buf1, st1) \<Longrightarrow>
   fmt_loop H sc fs argv (pre @ rest) q buf st = fmt_loop H sc fs argv rest q1 buf1 st1"
proof (induction H sc fs argv pre q buf st rule: fmt_loop.induct)
  case (1 H char_signed fopen argv quote buf st)
  then show ?case by simp
next
  case (2 H char_signed fopen argv c fmt quote buf st)
  show ?case
  proof (cases quote)
    case True
    obtain buf' st' where b: "buf_append (escape_char c) buf st = (buf', st')"
      by (cases "buf_append (escape_char c) buf st")
    show ?thesis using 2(1)[OF True b[symmetric]] 2(5) True b by simp
  next
    case nq: False
    show ?thesis
    proof (cases "c = CHR ''%''")
      case True
      show ?thesis
      proof (cases fmt)
        case Nil
        then show ?thesis using 2(5) nq True by simp
      next
        case (Cons d fmt')
        show ?thesis
        proof (cases "format_directive H char_signed fopen argv d buf st")
          case (Inl e)
          then show ?thesis using 2(5) nq True Cons by simp
        next
          case (Inr st')
          then show ?thesis using 2(2)[OF nq True Cons Inr] 2(5) nq True Cons by simp
        qed
      qed
    next
      case np: False
      show ?thesis
      proof (cases "c = CHR 0x5C")
        case True
        then show ?thesis using 2(3)[OF nq np True] 2(5) nq np by simp
      next
        case nb: False
        obtain buf' st' where b: "buf_append c buf st = (buf', st')"
          by (cases "buf_append c buf st")
        show ?thesis using 2(4)[OF nq np nb b[symmetric]] 2(5) nq np nb b by simp
      qed
    qed
  qed
qed


lemma buf_append_stdout:
  "buf_append c buf st = (b, s) \<Longrightarrow> printf (b @ t) s = printf (buf @ c # t) st"
  by (auto simp: buf_append_def flush_buf_def printf_def split: if_splits)

lemma printf_printf: "printf t (printf s st) = printf (s @ t) st"
  by (simp add: printf_def)

text \<open>
  C9, as the source has it. When the scan of the template is outside a backslash escape
  and reads a \<^verbatim>\<open>%\<close> that is the last character of the template, or that is followed
  by a character that is none of \<^verbatim>\<open>f l c C n m k s\<close> (the byte 0xFF aside, which the
  label \<^verbatim>\<open>case -1\<close> may take), rendering the row is a fatal error with exit status 1.
  The hypothesis says that the scan of the text before the \<^verbatim>\<open>%\<close> ends outside an
  escape.
\<close>

theorem format_percent_fatal:
  assumes "fmt_loop H sc fs argv pre False [] st = Inr (False, buf1, st1)"
    and "rest = [] \<or> hd rest \<notin> set ''flcCnmks'' \<and> hd rest \<noteq> CHR 0xFF"
  shows "search_query_callback H sc fs argv (pre @ CHR ''%'' # rest) st =
           Inl (if rest = [] then Format_end else Format_spec (hd rest)) \<and>
         exit_status (if rest = [] then Format_end else Format_spec (hd rest)) = Some 1"
proof -
  have "fmt_loop H sc fs argv (pre @ CHR ''%'' # rest) False [] st =
          fmt_loop H sc fs argv (CHR ''%'' # rest) False buf1 st1"
    by (rule fmt_loop_append[OF assms(1)])
  also have "\<dots> = Inl (if rest = [] then Format_end else Format_spec (hd rest))"
  proof (cases rest)
    case Nil
    then show ?thesis by simp
  next
    case (Cons d rest')
    then have "format_directive H sc fs argv d buf1 st1 = Inl (Format_spec d)"
      using assms(2) by (simp add: format_directive_def)
    then show ?thesis using Cons by simp
  qed
  finally show ?thesis by (simp add: search_query_callback_def)
qed

theorem format_percent_fatal_witness:
  "fmt_loop sparse_dissect_h True (\<lambda>_. None) row0 ''(%m) '' False [] render_init =
     Inr (False, '') '', render_init\<lparr>stdout := ''(-r-''\<rparr>) \<and>
   search_query_callback sparse_dissect_h True (\<lambda>_. None) row0 ''(%m) %x'' render_init =
     Inl (Format_spec CHR ''x'') \<and>
   search_query_callback sparse_dissect_h True (\<lambda>_. None) row0 ''(%m) %'' render_init =
     Inl Format_end"
proof -
  have pre: "fmt_loop sparse_dissect_h True (\<lambda>_. None) row0 ''(%m) '' False [] render_init =
     Inr (False, '') '', render_init\<lparr>stdout := ''(-r-''\<rparr>)"
    by code_simp
  show ?thesis
    using format_percent_fatal [OF pre, of "''x''"] format_percent_fatal [OF pre, of "[]"] pre
    by simp
qed

text \<open>
  C9, as stated, fails: in the template \<^verbatim>\<open>\%x\<close> a \<^verbatim>\<open>%\<close> is followed by
  \<^verbatim>\<open>x\<close>, which is no directive, and in \<^verbatim>\<open>\%\<close> a \<^verbatim>\<open>%\<close> is the last
  character; both render without error, because the backslash takes the \<^verbatim>\<open>%\<close> as a
  literal character.
\<close>

theorem format_escaped_percent_counterexample:
  "CHR ''x'' \<notin> set ''flcCnmks'' \<and>
   search_query_callback sparse_dissect_h True (\<lambda>_. None) row0
     [CHR 0x5C, CHR ''%'', CHR ''x''] render_init =
     Inr (render_init\<lparr>stdout := [CHR ''%'', CHR ''x'', CHR 0x0A]\<rparr>) \<and>
   search_query_callback sparse_dissect_h True (\<lambda>_. None) row0
     [CHR 0x5C, CHR ''%''] render_init =
     Inr (render_init\<lparr>stdout := [CHR ''%'', CHR 0x0A]\<rparr>)"
  by (simp add: search_query_callback_def buf_append_def escape_char_def flush_buf_def
      printf_def render_init_def)

text \<open>
  C10. After a prefix whose scan ends outside an escape: a backslash followed by a
  character \<open>c\<close> other than \<^verbatim>\<open>t\<close>, \<^verbatim>\<open>r\<close>, \<^verbatim>\<open>n\<close> puts \<open>c\<close> itself into
  the output and the scan goes on after it as after any literal character, so that a
  \<^verbatim>\<open>%\<close> after a backslash starts no directive; the template that ends with the two
  characters prints what the prefix prints, then \<open>c\<close>, then the newline. A single
  backslash at the very end of the template changes nothing: the row is printed as for
  the prefix alone. A \<^verbatim>\<open>%\<close> at the very end is the fatal error
  \<^verbatim>\<open>unexpected end of format string\<close>.
\<close>

theorem format_backslash:
  assumes "fmt_loop H sc fs argv pre False [] st = Inr (False, buf1, st1)"
  shows "(c \<notin> {CHR ''t'', CHR ''r'', CHR ''n''} \<longrightarrow>
           fmt_loop H sc fs argv (pre @ CHR 0x5C # c # rest) False [] st =
             (case buf_append c buf1 st1 of
                (b, s) \<Rightarrow> fmt_loop H sc fs argv rest False b s) \<and>
           search_query_callback H sc fs argv (pre @ [CHR 0x5C, c]) st =
             Inr (printf (buf1 @ [c, CHR 0x0A]) st1)) \<and>
         search_query_callback H sc fs argv pre st = Inr (printf (buf1 @ [CHR 0x0A]) st1) \<and>
         search_query_callback H sc fs argv (pre @ [CHR 0x5C]) st =
           search_query_callback H sc fs argv pre st \<and>
         search_query_callback H sc fs argv (pre @ [CHR ''%'']) st = Inl Format_end"
proof -
  have esc: "fmt_loop H sc fs argv (pre @ CHR 0x5C # c # rest) False [] st =
             (case buf_append c buf1 st1 of
                (b, s) \<Rightarrow> fmt_loop H sc fs argv rest False b s)"
    if "c \<notin> {CHR ''t'', CHR ''r'', CHR ''n''}" for rest
    using that fmt_loop_append[OF assms, of "CHR 0x5C # c # rest"]
    by (simp add: escape_char_def)
  have one: "search_query_callback H sc fs argv (pre @ [CHR 0x5C, c]) st =
             Inr (printf (buf1 @ [c, CHR 0x0A]) st1)"
    if c: "c \<notin> {CHR ''t'', CHR ''r'', CHR ''n''}"
  proof -
    obtain b s where bs: "buf_append c buf1 st1 = (b, s)" by (cases "buf_append c buf1 st1")
    show ?thesis
      using esc[OF c, of "[]"] bs buf_append_stdout[OF bs, of "[CHR 0x0A]"]
      by (simp add: search_query_callback_def flush_buf_def printf_printf)
  qed
  have pre: "search_query_callback H sc fs argv pre st = Inr (printf (buf1 @ [CHR 0x0A]) st1)"
    using assms by (simp add: search_query_callback_def flush_buf_def printf_printf)
  have trail: "search_query_callback H sc fs argv (pre @ [CHR 0x5C]) st =
           search_query_callback H sc fs argv pre st"
    using fmt_loop_append[OF assms, of "[CHR 0x5C]"] assms
    by (simp add: search_query_callback_def)
  have pct: "search_query_callback H sc fs argv (pre @ [CHR ''%'']) st = Inl Format_end"
    using fmt_loop_append[OF assms, of "[CHR ''%'']"]
    by (simp add: search_query_callback_def)
  from esc one pre trail pct show ?thesis by blast
qed

theorem format_backslash_witness:
  "fmt_loop sparse_dissect_h True (\<lambda>_. None) row0 ''%f:'' False [] render_init =
     Inr (False, '':'', render_init\<lparr>stdout := ''a.c''\<rparr>) \<and>
   search_query_callback sparse_dissect_h True (\<lambda>_. None) row0
     (''%f:'' @ [CHR 0x5C, CHR 0x5C]) render_init =
     Inr (render_init\<lparr>stdout := ''a.c:'' @ [CHR 0x5C, CHR 0x0A]\<rparr>) \<and>
   search_query_callback sparse_dissect_h True (\<lambda>_. None) row0
     (''%f:'' @ [CHR 0x5C, CHR ''%'']) render_init =
     Inr (render_init\<lparr>stdout := ''a.c:%'' @ [CHR 0x0A]\<rparr>) \<and>
   search_query_callback sparse_dissect_h True (\<lambda>_. None) row0
     (''%f:'' @ [CHR 0x5C]) render_init =
     Inr (render_init\<lparr>stdout := ''a.c:'' @ [CHR 0x0A]\<rparr>) \<and>
   search_query_callback sparse_dissect_h True (\<lambda>_. None) row0
     (''%f:'' @ [CHR ''%'']) render_init = Inl Format_end"
proof -
  have pre: "fmt_loop sparse_dissect_h True (\<lambda>_. None) row0 ''%f:'' False [] render_init =
     Inr (False, '':'', render_init\<lparr>stdout := ''a.c''\<rparr>)"
    by code_simp
  show ?thesis
    using format_backslash [OF pre, of "CHR 0x5C" "[]"] format_backslash [OF pre, of "CHR ''%''" "[]"] pre
    by (simp add: printf_def render_init_def)
qed


subsection \<open>The file registry and the staging table\<close>

lemma find_name_None: "find (\<lambda>r. f_name r = n) xs = None \<longleftrightarrow> n \<notin> set (map f_name xs)"
  by (induction xs) auto

lemma select_file_None_iff: "select_file n d = None \<longleftrightarrow> n \<notin> set (map f_name (files d))"
  unfolding select_file_def find_name_None[symmetric] by (simp split: option.splits)

lemma find_filter_other:
  "n \<noteq> n' \<Longrightarrow> find (\<lambda>r. f_name r = n) (filter (\<lambda>r. f_name r \<noteq> n') xs) = find (\<lambda>r. f_name r = n) xs"
  by (induction xs) auto

lemma select_file_delete_other:
  "n \<noteq> n' \<Longrightarrow> select_file n (delete_file n' d) = select_file n d"
  by (simp add: select_file_def delete_file_def find_filter_other)

lemma select_file_delete_same: "select_file n (delete_file n d) = None"
  by (auto simp add: select_file_None_iff delete_file_def)

lemma find_append: "find P (xs @ ys) = (case find P xs of None \<Rightarrow> find P ys | Some x \<Rightarrow> Some x)"
  by (induction xs) auto

lemma insert_file_ok:
  "select_file n d = None \<Longrightarrow>
   insert_file n m d = Inr (next_rowid d,
     d\<lparr>files := files d @ [\<lparr>f_id = next_rowid d, f_name = n, f_mtime = m\<rparr>], file_seq := next_rowid d\<rparr>)"
  by (simp add: insert_file_def select_file_None_iff Let_def)

lemma select_file_append_other:
  "n \<noteq> n' \<Longrightarrow>
   select_file n (d\<lparr>files := files d @ [\<lparr>f_id = i, f_name = n', f_mtime = m\<rparr>], file_seq := j\<rparr>) =
   select_file n d"
  by (simp add: select_file_def find_append split: option.splits)

lemma select_file_append_same:
  "select_file n d = None \<Longrightarrow>
   select_file n (d\<lparr>files := files d @ [\<lparr>f_id = i, f_name = n, f_mtime = m\<rparr>], file_seq := j\<rparr>) =
   Some (i, m)"
  by (simp add: select_file_def find_append split: option.splits)

lemma register_file_cases:
  "register_file n m st =
     (case select_file n (db st) of
        Some (old_id, old_mtime) \<Rightarrow>
          if m = old_mtime then Inr (st\<lparr>sindex_streams := sindex_streams st @ [old_id]\<rparr>)
          else Inr (st\<lparr>db := (delete_file n (db st))
                        \<lparr>files := files (delete_file n (db st)) @
                            [\<lparr>f_id = next_rowid (delete_file n (db st)), f_name = n, f_mtime = m\<rparr>],
                         file_seq := next_rowid (delete_file n (db st))\<rparr>,
                       sindex_streams := sindex_streams st @ [next_rowid (delete_file n (db st))]\<rparr>)
      | None \<Rightarrow>
          Inr (st\<lparr>db := (db st)
                    \<lparr>files := files (db st) @ [\<lparr>f_id = next_rowid (db st), f_name = n, f_mtime = m\<rparr>],
                     file_seq := next_rowid (db st)\<rparr>,
                  sindex_streams := sindex_streams st @ [next_rowid (db st)]\<rparr>))"
  by (simp add: register_file_def insert_file_ok select_file_delete_same split: option.splits)


lemma stream_file_in_range: "stream_file env i = Inr x \<Longrightarrow> i < length (input_streams env)"
  by (auto simp: stream_file_def split: if_splits)

lemma stable_mtimesD:
  assumes "stable_mtimes env" "stream_file env i = Inr (Some (f, m))"
    "stream_file env j = Inr (Some (f, m'))"
  shows "m = m'"
proof -
  have "Inr (Some (f, m)) \<in> set (stream_files env)" "Inr (Some (f, m')) \<in> set (stream_files env)"
    using assms(2,3) stream_file_in_range[OF assms(2)] stream_file_in_range[OF assms(3)]
    unfolding stream_files_def by (metis atLeast0LessThan image_eqI lessThan_iff set_map set_upt)+
  then show ?thesis using assms(1) unfolding stable_mtimes_def by fastforce
qed

lemma register_file_shape:
  "register_file n m st = Inr st' \<Longrightarrow>
   tempdb st' = tempdb st \<and> (\<exists>i. sindex_streams st' = sindex_streams st @ [i])"
  by (auto simp: register_file_cases split: option.splits if_splits)

lemma update_stream_one_shape:
  "update_stream_one env i st = Inr st' \<Longrightarrow>
   tempdb st' = tempdb st \<and> (\<exists>k. sindex_streams st' = sindex_streams st @ [k])"
  by (auto simp: update_stream_one_def dest: register_file_shape split: sum.splits option.splits)

lemma update_stream_loop_shape:
  "update_stream_loop env ns st = Inr st' \<Longrightarrow>
   tempdb st' = tempdb st \<and>
   (\<exists>ks. sindex_streams st' = sindex_streams st @ ks \<and> length ks = length ns)"
proof (induction ns arbitrary: st)
  case Nil
  then show ?case by simp
next
  case (Cons i ns)
  then obtain st1 where s1: "update_stream_one env i st = Inr st1"
    and s2: "update_stream_loop env ns st1 = Inr st'"
    by (auto split: sum.splits)
  from update_stream_one_shape[OF s1] Cons.IH[OF s2] show ?case by auto
qed

lemma update_stream_shape:
  "update_stream env nr st = Inr st' \<Longrightarrow>
   tempdb st' = tempdb st \<and>
   (\<exists>ks. sindex_streams st' = sindex_streams st @ ks) \<and>
   length (sindex_streams st') = max nr (length (sindex_streams st))"
  by (auto simp: update_stream_def dest!: update_stream_loop_shape split: if_splits)

lemma streams_inv_step:
  assumes inv: "streams_inv env (sindex_streams st) (db st)"
    and st: "stable_mtimes env"
    and up: "update_stream_one env (length (sindex_streams st)) st = Inr st'"
  shows "streams_inv env (sindex_streams st') (db st')"
proof (cases "stream_file env (length (sindex_streams st))")
  case (Inl e)
  then show ?thesis using up by (simp add: update_stream_one_def)
next
  case (Inr x)
  show ?thesis
  proof (cases x)
    case None
    then have "st' = st\<lparr>sindex_streams := sindex_streams st @ [- 1]\<rparr>"
      using up Inr by (simp add: update_stream_one_def)
    then show ?thesis using inv Inr None
      by (auto simp: streams_inv_def nth_append less_Suc_eq split: sum.splits option.splits)
  next
    case (Some fm)
    obtain f m where fm: "fm = (f, m)" by (cases fm)
    have reg: "register_file f m st = Inr st'"
      using up Inr Some fm by (simp add: update_stream_one_def)
    have others: "select_file f' (db st) = Some (k, m') \<Longrightarrow> f' \<noteq> f \<Longrightarrow>
                  select_file f' (db st') = Some (k, m')" for f' k m'
      using reg
      by (auto simp: register_file_cases select_file_append_other select_file_delete_other
          split: option.splits if_splits)
    have new: "\<exists>k. sindex_streams st' = sindex_streams st @ [k] \<and>
                 select_file f (db st') = Some (k, m)"
      using reg
      by (auto simp: register_file_cases select_file_append_same select_file_delete_same
          split: option.splits if_splits)
    have same: "db st' = db st" if "select_file f (db st) = Some (k, m)" for k
      using reg that by (auto simp: register_file_cases)
    show ?thesis
      unfolding streams_inv_def
    proof (intro allI impI)
      fix i assume i: "i < length (sindex_streams st')"
      from new obtain k where k: "sindex_streams st' = sindex_streams st @ [k]"
        "select_file f (db st') = Some (k, m)" by blast
      show "case stream_file env i of Inl e \<Rightarrow> False
            | Inr None \<Rightarrow> sindex_streams st' ! i = - 1
            | Inr (Some (f, m)) \<Rightarrow> select_file f (db st') = Some (sindex_streams st' ! i, m)"
      proof (cases "i = length (sindex_streams st)")
        case True
        then show ?thesis using Inr Some fm k by simp
      next
        case False
        then have il: "i < length (sindex_streams st)" using i k by simp
        from inv il have old: "case stream_file env i of Inl e \<Rightarrow> False
            | Inr None \<Rightarrow> sindex_streams st ! i = - 1
            | Inr (Some (f, m)) \<Rightarrow> select_file f (db st) = Some (sindex_streams st ! i, m)"
          by (simp add: streams_inv_def)
        show ?thesis
        proof (cases "stream_file env i")
          case (Inl e)
          then show ?thesis using old by simp
        next
          case Inr2: (Inr y)
          show ?thesis
          proof (cases y)
            case None
            then show ?thesis using old Inr2 k il by (simp add: nth_append)
          next
            case (Some gm)
            obtain g m2 where gm: "gm = (g, m2)" by (cases gm)
            have o: "select_file g (db st) = Some (sindex_streams st ! i, m2)"
              using old Inr2 Some gm by simp
            show ?thesis
            proof (cases "g = f")
              case True
              have "m2 = m"
                using stable_mtimesD[OF st] Inr2 Some gm True Inr \<open>x = Some fm\<close> fm by blast
              then have "db st' = db st" using same o True by simp
              then show ?thesis using o Inr2 Some gm k il by (simp add: nth_append)
            next
              case False
              then show ?thesis using others[OF o False] Inr2 Some gm k il by (simp add: nth_append)
            qed
          qed
        qed
      qed
    qed
  qed
qed


lemma streams_inv_loop:
  assumes "stable_mtimes env"
  shows "streams_inv env (sindex_streams st) (db st) \<Longrightarrow>
         update_stream_loop env [length (sindex_streams st)..<nr] st = Inr st' \<Longrightarrow>
         streams_inv env (sindex_streams st') (db st')"
proof (induction "nr - length (sindex_streams st)" arbitrary: st)
  case 0
  then show ?case by simp
next
  case (Suc n)
  then have lt: "length (sindex_streams st) < nr" by simp
  from Suc.prems(2) obtain st1 where
    s1: "update_stream_one env (length (sindex_streams st)) st = Inr st1" and
    s2: "update_stream_loop env [Suc (length (sindex_streams st))..<nr] st1 = Inr st'"
    by (auto simp: upt_conv_Cons[OF lt] split: sum.splits)
  have len: "length (sindex_streams st1) = Suc (length (sindex_streams st))"
    using update_stream_one_shape[OF s1] by auto
  have inv1: "streams_inv env (sindex_streams st1) (db st1)"
    by (rule streams_inv_step[OF Suc.prems(1) assms s1])
  show ?case
    using Suc.hyps(1)[of st1] Suc.hyps(2) inv1 s2 len by simp
qed

lemma streams_inv_update_stream:
  "stable_mtimes env \<Longrightarrow> streams_inv env (sindex_streams st) (db st) \<Longrightarrow>
   update_stream env nr st = Inr st' \<Longrightarrow> streams_inv env (sindex_streams st') (db st')"
  by (auto simp: update_stream_def dest: streams_inv_loop split: if_splits)

lemma insert_record_shape:
  "insert_record r st = Inr st' \<Longrightarrow>
   db st' = db st \<and> sindex_streams st' = sindex_streams st \<and>
   (\<exists>row. tempdb st' = tempdb st @ [row])"
  by (auto simp: insert_record_def split: sum.splits)

lemma insert_record_db:
  "insert_record r st = Inr st' \<Longrightarrow> insert_record r (st\<lparr>db := d\<rparr>) = Inr (st'\<lparr>db := d\<rparr>)"
  by (auto simp: insert_record_def split: sum.splits)

lemma r_symbol_shape:
  assumes "r_symbol env nr ctx mode pos sy st = Inr st'"
  shows "\<exists>st1. update_stream env nr st = Inr st1 \<and> db st' = db st1 \<and>
              sindex_streams st' = sindex_streams st1"
  using assms
  by (auto simp: r_symbol_def dest: insert_record_shape split: sum.splits if_splits option.splits)

lemma r_member_shape:
  assumes "r_member env nr ctx mode pos sy mem st = Inr st'"
  shows "\<exists>st1. update_stream env nr st = Inr st1 \<and> db st' = db st1 \<and>
              sindex_streams st' = sindex_streams st1"
  using assms
  by (auto simp: r_member_def Let_def dest: insert_record_shape split: sum.splits if_splits)

lemma report_shape:
  assumes "report H env ev st = Inr st'"
  shows "\<exists>st1. update_stream env (ev_stream_nr ev) st = Inr st1 \<and> db st' = db st1 \<and>
              sindex_streams st' = sindex_streams st1"
  using assms
  by (auto simp: r_symdef_def r_memdef_def dest: r_symbol_shape r_member_shape
      split: reporter_call.splits)

lemma streams_inv_report:
  "stable_mtimes env \<Longrightarrow> streams_inv env (sindex_streams st) (db st) \<Longrightarrow>
   report H env ev st = Inr st' \<Longrightarrow> streams_inv env (sindex_streams st') (db st')"
  using report_shape streams_inv_update_stream by metis

lemma report_streams:
  "report H env ev st = Inr st' \<Longrightarrow> \<exists>ks. sindex_streams st' = sindex_streams st @ ks"
  using report_shape update_stream_shape by metis

lemma dissect_streams:
  "dissect H env evs st = Inr st' \<Longrightarrow> \<exists>ks. sindex_streams st' = sindex_streams st @ ks"
proof (induction evs arbitrary: st)
  case Nil
  then show ?case by simp
next
  case (Cons ev evs)
  then obtain st1 where s1: "report H env ev st = Inr st1"
    and s2: "dissect H env evs st1 = Inr st'"
    by (auto split: sum.splits)
  from report_streams[OF s1] Cons.IH[OF s2] show ?case by auto
qed

lemma streams_inv_dissect:
  "stable_mtimes env \<Longrightarrow> streams_inv env (sindex_streams st) (db st) \<Longrightarrow>
   dissect H env evs st = Inr st' \<Longrightarrow> streams_inv env (sindex_streams st') (db st')"
proof (induction evs arbitrary: st)
  case Nil
  then show ?case by simp
next
  case (Cons ev evs)
  then obtain st1 where s1: "report H env ev st = Inr st1"
    and s2: "dissect H env evs st1 = Inr st'"
    by (auto split: sum.splits)
  show ?case
    using Cons.IH[OF Cons.prems(1) streams_inv_report[OF Cons.prems(1,2) s1] s2] .
qed


lemma replay_one:
  assumes "streams_inv env ids dF" "k < length ids"
  shows "update_stream_one env k (st\<lparr>db := dF\<rparr>) =
         Inr (st\<lparr>db := dF, sindex_streams := sindex_streams st @ [ids ! k]\<rparr>)"
proof -
  from assms have c: "case stream_file env k of Inl e \<Rightarrow> False
        | Inr None \<Rightarrow> ids ! k = - 1
        | Inr (Some (f, m)) \<Rightarrow> select_file f dF = Some (ids ! k, m)"
    by (simp add: streams_inv_def)
  then show ?thesis
    by (auto simp: update_stream_one_def register_file_def split: sum.splits option.splits)
qed

lemma add_state_update_swap:
  "st\<lparr>sindex_streams := xs, db := d\<rparr> = st\<lparr>db := d, sindex_streams := xs\<rparr>"
  by (cases st) simp

lemma replay_loop:
  assumes "streams_inv env ids dF"
  shows "\<forall>i \<in> set ns. i < length ids \<Longrightarrow>
         update_stream_loop env ns (st\<lparr>db := dF\<rparr>) =
         Inr (st\<lparr>db := dF, sindex_streams := sindex_streams st @ map ((!) ids) ns\<rparr>)"
proof (induction ns arbitrary: st)
  case Nil
  then show ?case by simp
next
  case (Cons i ns)
  let ?st2 = "st\<lparr>sindex_streams := sindex_streams st @ [ids ! i]\<rparr>"
  have one: "update_stream_one env i (st\<lparr>db := dF\<rparr>) = Inr (?st2\<lparr>db := dF\<rparr>)"
    using replay_one[OF assms, of i st] Cons.prems by (simp add: add_state_update_swap)
  have rest: "update_stream_loop env ns (?st2\<lparr>db := dF\<rparr>) =
         Inr (?st2\<lparr>db := dF, sindex_streams := sindex_streams ?st2 @ map ((!) ids) ns\<rparr>)"
    using Cons.IH[of ?st2] Cons.prems by simp
  have "update_stream_loop env (i # ns) (st\<lparr>db := dF\<rparr>) =
        update_stream_loop env ns (?st2\<lparr>db := dF\<rparr>)"
    by (simp only: update_stream_loop.simps one sum.case)
  also note rest
  finally show ?case by simp
qed

lemma map_nth_upt:
  "nr \<le> length ids \<Longrightarrow> map ((!) ids) [k..<nr] = drop k (take nr ids)"
  by (auto simp: list_eq_iff_nth_eq)

lemma replay_update_stream:
  assumes inv: "streams_inv env ids dF"
    and up: "update_stream env nr st = Inr st1"
    and pre: "ids = sindex_streams st1 @ rest"
  shows "update_stream env nr (st\<lparr>db := dF\<rparr>) = Inr (st1\<lparr>db := dF\<rparr>)"
proof (cases "nr \<le> length (sindex_streams st)")
  case True
  then show ?thesis using up by (simp add: update_stream_def)
next
  case False
  from update_stream_shape[OF up] obtain ks where
    t: "tempdb st1 = tempdb st" and ks: "sindex_streams st1 = sindex_streams st @ ks"
    and len: "length (sindex_streams st1) = max nr (length (sindex_streams st))"
    by blast
  let ?k = "length (sindex_streams st)"
  have nr: "nr \<le> length ids" using len pre False by simp
  have rng: "\<forall>i \<in> set [?k..<nr]. i < length ids" using nr by simp
  have "map ((!) ids) [?k..<nr] = drop ?k (take nr ids)"
    by (rule map_nth_upt[OF nr])
  also have "take nr ids = sindex_streams st1" using pre len False by simp
  also have "drop ?k (sindex_streams st1) = ks" using ks by simp
  finally have m: "map ((!) ids) [?k..<nr] = ks" .
  have "update_stream env nr (st\<lparr>db := dF\<rparr>) =
        Inr (st\<lparr>db := dF, sindex_streams := sindex_streams st @ ks\<rparr>)"
    using False replay_loop[OF inv rng, of st] m by (simp add: update_stream_def)
  moreover have "st1\<lparr>db := dF\<rparr> = st\<lparr>db := dF, sindex_streams := sindex_streams st @ ks\<rparr>"
    using t ks by (cases st; cases st1) simp
  ultimately show ?thesis by simp
qed

lemma replay_r_symbol:
  assumes inv: "streams_inv env ids dF"
    and run: "r_symbol env nr ctx mode pos sy st = Inr st'"
    and pre: "ids = sindex_streams st' @ rest"
  shows "r_symbol env nr ctx mode pos sy (st\<lparr>db := dF\<rparr>) = Inr (st'\<lparr>db := dF\<rparr>)"
proof -
  from r_symbol_shape[OF run] obtain st1 where
    up: "update_stream env nr st = Inr st1" and s: "sindex_streams st' = sindex_streams st1"
    by blast
  have up': "update_stream env nr (st\<lparr>db := dF\<rparr>) = Inr (st1\<lparr>db := dF\<rparr>)"
    using replay_update_stream[OF inv up] pre s by simp
  show ?thesis
    using run up
    unfolding r_symbol_def up' 
    by (auto simp: insert_record_db split: sum.splits if_splits option.splits)
qed

lemma replay_r_member:
  assumes inv: "streams_inv env ids dF"
    and run: "r_member env nr ctx mode pos sy mem st = Inr st'"
    and pre: "ids = sindex_streams st' @ rest"
  shows "r_member env nr ctx mode pos sy mem (st\<lparr>db := dF\<rparr>) = Inr (st'\<lparr>db := dF\<rparr>)"
proof -
  from r_member_shape[OF run] obtain st1 where
    up: "update_stream env nr st = Inr st1" and s: "sindex_streams st' = sindex_streams st1"
    by blast
  have up': "update_stream env nr (st\<lparr>db := dF\<rparr>) = Inr (st1\<lparr>db := dF\<rparr>)"
    using replay_update_stream[OF inv up] pre s by simp
  show ?thesis
    using run up
    unfolding r_member_def up' 
    by (auto simp: insert_record_db Let_def split: sum.splits if_splits)
qed

lemma replay_report:
  assumes inv: "streams_inv env ids dF"
    and run: "report H env ev st = Inr st'"
    and pre: "ids = sindex_streams st' @ rest"
  shows "report H env ev (st\<lparr>db := dF\<rparr>) = Inr (st'\<lparr>db := dF\<rparr>)"
  using run replay_r_symbol[OF inv _ pre] replay_r_member[OF inv _ pre]
  by (auto simp: r_symdef_def r_memdef_def split: reporter_call.splits)

lemma replay_dissect:
  assumes inv: "streams_inv env ids dF"
  shows "dissect H env evs st = Inr st' \<Longrightarrow> ids = sindex_streams st' @ rest \<Longrightarrow>
         dissect H env evs (st\<lparr>db := dF\<rparr>) = Inr (st'\<lparr>db := dF\<rparr>)"
proof (induction evs arbitrary: st)
  case Nil
  then show ?case by simp
next
  case (Cons ev evs)
  then obtain st1 where s1: "report H env ev st = Inr st1"
    and s2: "dissect H env evs st1 = Inr st'"
    by (auto split: sum.splits)
  from dissect_streams[OF s2] obtain ks where "sindex_streams st' = sindex_streams st1 @ ks"
    by blast
  then have "ids = sindex_streams st1 @ (ks @ rest)" using Cons.prems(2) by simp
  from replay_report[OF inv s1 this] Cons.IH[OF s2 Cons.prems(2)]
  show ?case by simp
qed

lemma merge_rows_files:
  "merge_rows rs d = Inr d' \<Longrightarrow> files d' = files d \<and> file_seq d' = file_seq d"
  by (induction rs arbitrary: d) (auto split: if_splits)

lemma merge_rows_keys:
  "merge_rows rs d = Inr d' \<Longrightarrow>
   set (map index_key (sindex d)) \<union> set (map index_key rs) \<subseteq> set (map index_key (sindex d'))"
proof (induction rs arbitrary: d)
  case Nil
  then show ?case by simp
next
  case (Cons r rs)
  show ?case
  proof (cases "index_key r \<in> set (map index_key (sindex d))")
    case True
    then show ?thesis using Cons.IH[of d] Cons.prems by auto
  next
    case False
    then have "merge_rows rs (d\<lparr>sindex := sindex d @ [r]\<rparr>) = Inr d'"
      using Cons.prems by (auto split: if_splits)
    from Cons.IH[OF this] show ?thesis by auto
  qed
qed

lemma merge_rows_present:
  "\<forall>r \<in> set rs. index_key r \<in> set (map index_key (sindex d)) \<Longrightarrow> merge_rows rs d = Inr d"
  by (induction rs) auto

lemma merge_rows_twice: "merge_rows rs d = Inr d' \<Longrightarrow> merge_rows rs d' = Inr d'"
  using merge_rows_keys[of rs d d'] by (intro merge_rows_present) auto

lemma select_file_cong: "files d' = files d \<Longrightarrow> select_file n d' = select_file n d"
  by (simp add: select_file_def)

lemma streams_inv_cong:
  assumes "files d' = files d"
  shows "streams_inv env ids d' = streams_inv env ids d"
proof -
  have "select_file f d' = select_file f d" for f
    using assms by (rule select_file_cong)
  then show ?thesis
    by (simp add: streams_inv_def split: sum.splits option.splits prod.splits)
qed

lemma add_idempotent:
  assumes st: "stable_mtimes env" and run: "command_add H env evs d = Inr d1"
  shows "command_add H env evs d1 = Inr d1"
proof -
  from run obtain stF where dis: "dissect H env evs (add_init d) = Inr stF"
    and mg: "merge_rows (tempdb stF) (db stF) = Inr d1"
    by (auto simp: command_add_def split: sum.splits)
  have "streams_inv env (sindex_streams (add_init d)) (db (add_init d))"
    by (simp add: streams_inv_def add_init_def)
  from streams_inv_dissect[OF st this dis]
  have "streams_inv env (sindex_streams stF) (db stF)" .
  then have inv: "streams_inv env (sindex_streams stF) d1"
    using merge_rows_files[OF mg] streams_inv_cong by blast
  have "dissect H env evs ((add_init d)\<lparr>db := d1\<rparr>) = Inr (stF\<lparr>db := d1\<rparr>)"
    by (rule replay_dissect[OF inv dis, of "[]"]) simp
  moreover have "(add_init d)\<lparr>db := d1\<rparr> = add_init d1" by (simp add: add_init_def)
  ultimately have "dissect H env evs (add_init d1) = Inr (stF\<lparr>db := d1\<rparr>)" by simp
  then show ?thesis
    using merge_rows_twice[OF mg] by (simp add: command_add_def)
qed


lemma stream_file_under_root:
  assumes "i < length (input_streams env)" "s_fd (input_streams env ! i) \<noteq> - 1"
    "stat_mtime env (s_name (input_streams env ! i)) = Some cur_mtime"
    "realpath env (s_name (input_streams env ! i)) = Some fullname"
    "under_root (cwd env) fullname"
  shows "stream_file env i = Inr (Some (drop (length (cwd env) + 1) fullname, cur_mtime))"
  using assms by (simp add: stream_file_def Let_def)

lemma update_stream_loop_append:
  "update_stream_loop env (xs @ ys) st =
     (case update_stream_loop env xs st of
        Inl e \<Rightarrow> Inl e
      | Inr s \<Rightarrow> update_stream_loop env ys s)"
  by (induction xs arbitrary: st) (auto split: sum.splits)

lemma update_stream_split:
  assumes run: "update_stream env nr st = Inr st'"
    and lo: "length (sindex_streams st) \<le> i" and hi: "i < nr"
  shows "\<exists>sa sb. update_stream env i st = Inr sa \<and>
           update_stream_one env i sa = Inr sb \<and>
           update_stream env (Suc i) st = Inr sb \<and>
           update_stream env nr sb = Inr st' \<and>
           length (sindex_streams sa) = i \<and>
           i < length (sindex_streams st') \<and>
           sindex_streams sb = sindex_streams sa @ [sindex_streams st' ! i]"
proof -
  let ?L = "length (sindex_streams st)"
  have split: "[?L..<nr] = [?L..<i] @ [i] @ [Suc i..<nr]"
    using lo hi by (metis append_Cons append_Nil le_eq_less_or_eq less_imp_le_nat upt_add_eq_append
        upt_conv_Cons le_Suc_ex less_or_eq_imp_le)
  have "update_stream_loop env [?L..<nr] st = Inr st'"
    using run lo hi by (simp add: update_stream_def)
  then obtain sa sb where
    a: "update_stream_loop env [?L..<i] st = Inr sa" and
    b: "update_stream_one env i sa = Inr sb" and
    c: "update_stream_loop env [Suc i..<nr] sb = Inr st'"
    unfolding split by (auto simp: update_stream_loop_append split: sum.splits)
  have la: "length (sindex_streams sa) = i"
    using update_stream_loop_shape[OF a] lo by auto
  from update_stream_one_shape[OF b] obtain k where
    k: "sindex_streams sb = sindex_streams sa @ [k]" by blast
  from update_stream_loop_shape[OF c] obtain ks where
    ks: "sindex_streams st' = sindex_streams sb @ ks" by blast
  have slot: "i < length (sindex_streams st')" "sindex_streams st' ! i = k"
    using k ks la by (auto simp: nth_append)
  have ua: "update_stream env i st = Inr sa"
    using a lo by (auto simp: update_stream_def)
  have "[?L..<Suc i] = [?L..<i] @ [i]" using lo by simp
  then have ub: "update_stream env (Suc i) st = Inr sb"
    using a b lo by (simp add: update_stream_def update_stream_loop_append)
  have lb: "length (sindex_streams sb) = Suc i" using k la by simp
  have uc: "update_stream env nr sb = Inr st'"
    using c hi lb by (auto simp: update_stream_def)
  show ?thesis using ua b ub uc la slot k by auto
qed

text \<open>
  C1. \<^verbatim>\<open>update_stream\<close> has run up to stream \<open>nr\<close> and given the state
  \<open>st'\<close>; stream \<open>i\<close>, not yet registered at the start and below \<open>nr\<close>, has
  a file (\<^verbatim>\<open>fd\<close> is not -1) whose real path lies under the project root;
  \<open>filename\<close> is its name relative to the root and \<open>cur_mtime\<close> its current
  mtime. Then the run passes through the state \<open>sa\<close> in which the streams before
  \<open>i\<close> are registered and the state \<open>sb\<close> in which stream \<open>i\<close> is too,
  and slot \<open>i\<close> of \<^verbatim>\<open>sindex_streams\<close> keeps from \<open>sb\<close> to the end the
  id given there. If the \<^verbatim>\<open>file\<close> table of \<open>sa\<close> has a record of that name
  with that mtime, slot \<open>i\<close> holds its id and the database of \<open>sb\<close> is that of
  \<open>sa\<close>: nothing is inserted or deleted. If it has a record of that name with
  another mtime, the \<^verbatim>\<open>file\<close> table of \<open>sb\<close> is the old one without that
  record, followed by a new record of the name with the current mtime, whose generated
  id is in slot \<open>i\<close>. If it has none, the new record is added to the table and its
  generated id is in slot \<open>i\<close>.
\<close>

theorem update_stream_registry:
  assumes run: "update_stream env nr st = Inr st'"
    and lo: "length (sindex_streams st) \<le> i" and hi: "i < nr"
    and rng: "i < length (input_streams env)"
    and fd: "s_fd (input_streams env ! i) \<noteq> - 1"
    and mt: "stat_mtime env (s_name (input_streams env ! i)) = Some cur_mtime"
    and rp: "realpath env (s_name (input_streams env ! i)) = Some fullname"
    and ur: "under_root (cwd env) fullname"
    and fn: "filename = drop (length (cwd env) + 1) fullname"
  shows "\<exists>sa sb. update_stream env i st = Inr sa \<and>
           update_stream env (Suc i) st = Inr sb \<and>
           update_stream env nr sb = Inr st' \<and>
           length (sindex_streams sa) = i \<and>
           i < length (sindex_streams st') \<and>
           take i (sindex_streams sb) = sindex_streams sa \<and>
           sindex_streams sb ! i = sindex_streams st' ! i \<and>
           tempdb sb = tempdb sa \<and>
           (case select_file filename (db sa) of
              Some (file_id, old_mtime) \<Rightarrow>
                if old_mtime = cur_mtime
                then sindex_streams st' ! i = file_id \<and> db sb = db sa
                else files (db sb) =
                       filter (\<lambda>r. f_name r \<noteq> filename) (files (db sa)) @
                       [\<lparr>f_id = sindex_streams st' ! i, f_name = filename,
                         f_mtime = cur_mtime\<rparr>] \<and>
                     sindex_streams st' ! i = next_rowid (delete_file filename (db sa)) \<and>
                     sindex (db sb) = sindex (delete_file filename (db sa))
            | None \<Rightarrow>
                files (db sb) =
                  files (db sa) @
                  [\<lparr>f_id = sindex_streams st' ! i, f_name = filename, f_mtime = cur_mtime\<rparr>] \<and>
                sindex_streams st' ! i = next_rowid (db sa) \<and>
                sindex (db sb) = sindex (db sa))"
proof -
  from update_stream_split[OF run lo hi] obtain sa sb where
    ua: "update_stream env i st = Inr sa" and
    one: "update_stream_one env i sa = Inr sb" and
    ub: "update_stream env (Suc i) st = Inr sb" and
    uc: "update_stream env nr sb = Inr st'" and
    la: "length (sindex_streams sa) = i" and
    sl: "i < length (sindex_streams st')" and
    k: "sindex_streams sb = sindex_streams sa @ [sindex_streams st' ! i]"
    by blast
  have reg: "register_file filename cur_mtime sa = Inr sb"
    using one stream_file_under_root[OF rng fd mt rp ur] fn by (simp add: update_stream_one_def)
  have t: "tempdb sb = tempdb sa" using register_file_shape[OF reg] by simp
  have cases: "case select_file filename (db sa) of
              Some (file_id, old_mtime) \<Rightarrow>
                if old_mtime = cur_mtime
                then sindex_streams st' ! i = file_id \<and> db sb = db sa
                else files (db sb) =
                       filter (\<lambda>r. f_name r \<noteq> filename) (files (db sa)) @
                       [\<lparr>f_id = sindex_streams st' ! i, f_name = filename,
                         f_mtime = cur_mtime\<rparr>] \<and>
                     sindex_streams st' ! i = next_rowid (delete_file filename (db sa)) \<and>
                     sindex (db sb) = sindex (delete_file filename (db sa))
            | None \<Rightarrow>
                files (db sb) =
                  files (db sa) @
                  [\<lparr>f_id = sindex_streams st' ! i, f_name = filename, f_mtime = cur_mtime\<rparr>] \<and>
                sindex_streams st' ! i = next_rowid (db sa) \<and>
                sindex (db sb) = sindex (db sa)"
    using reg k unfolding register_file_cases
    by (auto simp: delete_file_def split: option.splits if_splits)
  have tk: "take i (sindex_streams sb) = sindex_streams sa"
    using k la by simp
  have nth: "sindex_streams sb ! i = sindex_streams st' ! i"
    using k la by (metis nth_append_length)
  show ?thesis
    apply (rule exI[of _ sa], rule exI[of _ sb])
    using ua ub uc la sl tk nth t cases by simp
qed

theorem update_stream_registry_witness:
  "update_stream env0 2 (add_init db1) = Inr registered_hit \<and>
   length (sindex_streams (add_init db1)) \<le> 1 \<and> (1::nat) < 2 \<and>
   1 < length (input_streams env0) \<and> s_fd (input_streams env0 ! 1) \<noteq> - 1 \<and>
   stat_mtime env0 (s_name (input_streams env0 ! 1)) = Some 100 \<and>
   realpath env0 (s_name (input_streams env0 ! 1)) = Some ''/p/a.c'' \<and>
   under_root (cwd env0) ''/p/a.c'' \<and>
   ''a.c'' = drop (length (cwd env0) + 1) ''/p/a.c'' \<and>
   (\<exists>sa sb. update_stream env0 1 (add_init db1) = Inr sa \<and>
      update_stream env0 (Suc 1) (add_init db1) = Inr sb \<and>
      select_file ''a.c'' (db sa) = Some (1, 100) \<and>
      sindex_streams registered_hit ! 1 = 1 \<and> db sb = db sa) \<and>
   update_stream env1 2 (add_init db1) = Inr registered_stale \<and>
   stat_mtime env1 (s_name (input_streams env1 ! 1)) = Some 200 \<and>
   (\<exists>sa sb. update_stream env1 1 (add_init db1) = Inr sa \<and>
      update_stream env1 (Suc 1) (add_init db1) = Inr sb \<and>
      select_file ''a.c'' (db sa) = Some (1, 100) \<and>
      files (db sb) =
        filter (\<lambda>r. f_name r \<noteq> ''a.c'') (files (db sa)) @
        [\<lparr>f_id = sindex_streams registered_stale ! 1, f_name = ''a.c'', f_mtime = 200\<rparr>] \<and>
      sindex_streams registered_stale ! 1 = next_rowid (delete_file ''a.c'' (db sa))) \<and>
   update_stream env0 2 (add_init db_empty) = Inr registered_miss \<and>
   (\<exists>sa sb. update_stream env0 1 (add_init db_empty) = Inr sa \<and>
      update_stream env0 (Suc 1) (add_init db_empty) = Inr sb \<and>
      select_file ''a.c'' (db sa) = None \<and>
      files (db sb) =
        files (db sa) @
        [\<lparr>f_id = sindex_streams registered_miss ! 1, f_name = ''a.c'', f_mtime = 100\<rparr>] \<and>
      sindex_streams registered_miss ! 1 = next_rowid (db sa))"
proof -
  have h1: "1 < length (input_streams env0)" by code_simp
  have h2: "s_fd (input_streams env0 ! 1) \<noteq> - 1" by code_simp
  have h3: "stat_mtime env0 (s_name (input_streams env0 ! 1)) = Some 100" by code_simp
  have h4: "realpath env0 (s_name (input_streams env0 ! 1)) = Some ''/p/a.c''" by code_simp
  have h5: "under_root (cwd env0) ''/p/a.c''" by code_simp
  have h6: "''a.c'' = drop (length (cwd env0) + 1) ''/p/a.c''" by code_simp
  have g1: "1 < length (input_streams env1)" by code_simp
  have g2: "s_fd (input_streams env1 ! 1) \<noteq> - 1" by code_simp
  have g3: "stat_mtime env1 (s_name (input_streams env1 ! 1)) = Some 200" by code_simp
  have g4: "realpath env1 (s_name (input_streams env1 ! 1)) = Some ''/p/a.c''" by code_simp
  have g5: "under_root (cwd env1) ''/p/a.c''" by code_simp
  have g6: "''a.c'' = drop (length (cwd env1) + 1) ''/p/a.c''" by code_simp
  have lo1: "length (sindex_streams (add_init db1)) \<le> 1"
    and lo0: "length (sindex_streams (add_init db_empty)) \<le> 1"
    by (simp_all add: add_init_def)
  have hi: "(1::nat) < 2" by simp
  have ra: "update_stream env0 2 (add_init db1) = Inr registered_hit" by code_simp
  have rb: "update_stream env1 2 (add_init db1) = Inr registered_stale" by code_simp
  have rc: "update_stream env0 2 (add_init db_empty) = Inr registered_miss" by code_simp
  have pa: "update_stream env0 1 (add_init db1) = Inr ((add_init db1)\<lparr>sindex_streams := [- 1]\<rparr>)"
    by code_simp
  have pb: "update_stream env1 1 (add_init db1) = Inr ((add_init db1)\<lparr>sindex_streams := [- 1]\<rparr>)"
    by code_simp
  have pc: "update_stream env0 1 (add_init db_empty) =
            Inr ((add_init db_empty)\<lparr>sindex_streams := [- 1]\<rparr>)"
    by code_simp
  have sel1: "select_file ''a.c'' (db ((add_init db1)\<lparr>sindex_streams := [- 1]\<rparr>)) = Some (1, 100)"
    by code_simp
  have sel0: "select_file ''a.c'' (db ((add_init db_empty)\<lparr>sindex_streams := [- 1]\<rparr>)) = None"
    by code_simp
  have a: "\<exists>sa sb. update_stream env0 1 (add_init db1) = Inr sa \<and>
      update_stream env0 (Suc 1) (add_init db1) = Inr sb \<and>
      select_file ''a.c'' (db sa) = Some (1, 100) \<and>
      sindex_streams registered_hit ! 1 = 1 \<and> db sb = db sa"
  proof -
    from update_stream_registry [OF ra lo1 hi h1 h2 h3 h4 h5 h6] obtain sa sb where
      x: "update_stream env0 1 (add_init db1) = Inr sa"
         "update_stream env0 (Suc 1) (add_init db1) = Inr sb"
         "case select_file ''a.c'' (db sa) of
              Some (file_id, old_mtime) \<Rightarrow>
                if old_mtime = 100
                then sindex_streams registered_hit ! 1 = file_id \<and> db sb = db sa
                else files (db sb) =
                       filter (\<lambda>r. f_name r \<noteq> ''a.c'') (files (db sa)) @
                       [\<lparr>f_id = sindex_streams registered_hit ! 1, f_name = ''a.c'',
                         f_mtime = 100\<rparr>] \<and>
                     sindex_streams registered_hit ! 1 = next_rowid (delete_file ''a.c'' (db sa)) \<and>
                     sindex (db sb) = sindex (delete_file ''a.c'' (db sa))
            | None \<Rightarrow>
                files (db sb) =
                  files (db sa) @
                  [\<lparr>f_id = sindex_streams registered_hit ! 1, f_name = ''a.c'', f_mtime = 100\<rparr>] \<and>
                sindex_streams registered_hit ! 1 = next_rowid (db sa) \<and>
                sindex (db sb) = sindex (db sa)"
      by blast
    have "sa = (add_init db1)\<lparr>sindex_streams := [- 1]\<rparr>" using x(1) pa by simp
    then have "select_file ''a.c'' (db sa) = Some (1, 100)" using sel1 by simp
    then show ?thesis using x by auto
  qed
  have b: "\<exists>sa sb. update_stream env1 1 (add_init db1) = Inr sa \<and>
      update_stream env1 (Suc 1) (add_init db1) = Inr sb \<and>
      select_file ''a.c'' (db sa) = Some (1, 100) \<and>
      files (db sb) =
        filter (\<lambda>r. f_name r \<noteq> ''a.c'') (files (db sa)) @
        [\<lparr>f_id = sindex_streams registered_stale ! 1, f_name = ''a.c'', f_mtime = 200\<rparr>] \<and>
      sindex_streams registered_stale ! 1 = next_rowid (delete_file ''a.c'' (db sa))"
  proof -
    from update_stream_registry [OF rb lo1 hi g1 g2 g3 g4 g5 g6] obtain sa sb where
      x: "update_stream env1 1 (add_init db1) = Inr sa"
         "update_stream env1 (Suc 1) (add_init db1) = Inr sb"
         "case select_file ''a.c'' (db sa) of
              Some (file_id, old_mtime) \<Rightarrow>
                if old_mtime = 200
                then sindex_streams registered_stale ! 1 = file_id \<and> db sb = db sa
                else files (db sb) =
                       filter (\<lambda>r. f_name r \<noteq> ''a.c'') (files (db sa)) @
                       [\<lparr>f_id = sindex_streams registered_stale ! 1, f_name = ''a.c'',
                         f_mtime = 200\<rparr>] \<and>
                     sindex_streams registered_stale ! 1 = next_rowid (delete_file ''a.c'' (db sa)) \<and>
                     sindex (db sb) = sindex (delete_file ''a.c'' (db sa))
            | None \<Rightarrow>
                files (db sb) =
                  files (db sa) @
                  [\<lparr>f_id = sindex_streams registered_stale ! 1, f_name = ''a.c'', f_mtime = 200\<rparr>] \<and>
                sindex_streams registered_stale ! 1 = next_rowid (db sa) \<and>
                sindex (db sb) = sindex (db sa)"
      by blast
    have "sa = (add_init db1)\<lparr>sindex_streams := [- 1]\<rparr>" using x(1) pb by simp
    then have "select_file ''a.c'' (db sa) = Some (1, 100)" using sel1 by simp
    then show ?thesis using x by auto
  qed
  have c: "\<exists>sa sb. update_stream env0 1 (add_init db_empty) = Inr sa \<and>
      update_stream env0 (Suc 1) (add_init db_empty) = Inr sb \<and>
      select_file ''a.c'' (db sa) = None \<and>
      files (db sb) =
        files (db sa) @
        [\<lparr>f_id = sindex_streams registered_miss ! 1, f_name = ''a.c'', f_mtime = 100\<rparr>] \<and>
      sindex_streams registered_miss ! 1 = next_rowid (db sa)"
  proof -
    from update_stream_registry [OF rc lo0 hi h1 h2 h3 h4 h5 h6] obtain sa sb where
      x: "update_stream env0 1 (add_init db_empty) = Inr sa"
         "update_stream env0 (Suc 1) (add_init db_empty) = Inr sb"
         "case select_file ''a.c'' (db sa) of
              Some (file_id, old_mtime) \<Rightarrow>
                if old_mtime = 100
                then sindex_streams registered_miss ! 1 = file_id \<and> db sb = db sa
                else files (db sb) =
                       filter (\<lambda>r. f_name r \<noteq> ''a.c'') (files (db sa)) @
                       [\<lparr>f_id = sindex_streams registered_miss ! 1, f_name = ''a.c'',
                         f_mtime = 100\<rparr>] \<and>
                     sindex_streams registered_miss ! 1 = next_rowid (delete_file ''a.c'' (db sa)) \<and>
                     sindex (db sb) = sindex (delete_file ''a.c'' (db sa))
            | None \<Rightarrow>
                files (db sb) =
                  files (db sa) @
                  [\<lparr>f_id = sindex_streams registered_miss ! 1, f_name = ''a.c'', f_mtime = 100\<rparr>] \<and>
                sindex_streams registered_miss ! 1 = next_rowid (db sa) \<and>
                sindex (db sb) = sindex (db sa)"
      by blast
    have "sa = (add_init db_empty)\<lparr>sindex_streams := [- 1]\<rparr>" using x(1) pc by simp
    then have "select_file ''a.c'' (db sa) = None" using sel0 by simp
    then show ?thesis using x by auto
  qed
  show ?thesis
    by (intro conjI) (fact ra lo1 hi h1 h2 h3 h4 h5 h6 a rb g3 b rc c)+
qed

lemma fold_max_ge: "(a::int) \<le> fold max xs a \<and> (\<forall>x \<in> set xs. x \<le> fold max xs a)"
proof (induction xs arbitrary: a)
  case Nil
  then show ?case by simp
next
  case (Cons x xs)
  have "max x a \<le> fold max xs (max x a)" "\<forall>y \<in> set xs. y \<le> fold max xs (max x a)"
    using Cons.IH[of "max x a"] by auto
  then show ?case by auto
qed

lemma next_rowid_gt_seq: "file_seq d < next_rowid d"
  using fold_max_ge[of "file_seq d" "map f_id (files d)"] by (simp add: next_rowid_def)

lemma find_Some_name:
  "find (\<lambda>r. f_name r = n) xs = Some r \<Longrightarrow> r \<in> set xs \<and> f_name r = n"
  by (induction xs) (auto split: if_splits)

lemma distinct_name_filter:
  "distinct (map f_name xs) \<Longrightarrow> r \<in> set xs \<Longrightarrow> filter (\<lambda>x. f_name x = f_name r) xs = [r]"
proof (induction xs)
  case Nil
  then show ?case by simp
next
  case (Cons x xs)
  show ?case
  proof (cases "x = r")
    case True
    have "f_name y \<noteq> f_name r" if "y \<in> set xs" for y
      using that True Cons.prems(1) by (metis distinct.simps(2) image_eqI list.simps(9) set_map)
    then have "filter (\<lambda>y. f_name y = f_name r) xs = []"
      by (simp add: filter_empty_conv)
    then show ?thesis using True by simp
  next
    case False
    then have "r \<in> set xs" using Cons.prems(2) by simp
    then have "f_name x \<noteq> f_name r" using Cons.prems(1) by auto
    then show ?thesis using Cons.IH \<open>r \<in> set xs\<close> Cons.prems(1) by simp
  qed
qed

text \<open>
  The step of \<^verbatim>\<open>update_stream\<close> for a stream of the project whose file record has
  another mtime than the file: the cascade removes the rows of the old id and nothing
  else, and the file gets a record with a new id.
\<close>

lemma update_stream_stale:
  assumes "i < length (input_streams env)" "s_fd (input_streams env ! i) \<noteq> - 1"
    "stat_mtime env (s_name (input_streams env ! i)) = Some cur_mtime"
    "realpath env (s_name (input_streams env ! i)) = Some fullname"
    "under_root (cwd env) fullname"
    "filename = drop (length (cwd env) + 1) fullname"
    and ok: "db_ok (db st)"
    and hit: "select_file filename (db st) = Some (old_id, old_mtime)"
    and stale: "old_mtime \<noteq> cur_mtime"
  shows "\<exists>st' new_id.
           update_stream_one env i st = Inr st' \<and>
           sindex_streams st' = sindex_streams st @ [new_id] \<and>
           tempdb st' = tempdb st \<and>
           select_file filename (db st') = Some (new_id, cur_mtime) \<and>
           sindex (db st') = filter (\<lambda>r. col_file r \<noteq> old_id) (sindex (db st)) \<and>
           filter (\<lambda>r. f_name r \<noteq> filename) (files (db st')) =
             filter (\<lambda>r. f_name r \<noteq> filename) (files (db st)) \<and>
           (\<forall>g \<in> set (files (db st)). f_name g \<noteq> filename \<longrightarrow>
              f_id g \<noteq> old_id \<and> f_id g \<noteq> new_id) \<and>
           (\<forall>r \<in> set (sindex (db st')). col_file r \<noteq> new_id) \<and>
           (\<forall>r. col_file r = new_id \<longrightarrow>
              merge_rows [r] (db st') = Inr ((db st')\<lparr>sindex := sindex (db st') @ [r]\<rparr>))"
proof -
  let ?d = "db st"
  let ?new = "next_rowid (delete_file filename ?d)"
  let ?d' = "(delete_file filename ?d)
               \<lparr>files := files (delete_file filename ?d) @
                   [\<lparr>f_id = ?new, f_name = filename, f_mtime = cur_mtime\<rparr>],
                file_seq := ?new\<rparr>"
  let ?st' = "st\<lparr>db := ?d', sindex_streams := sindex_streams st @ [?new]\<rparr>"
  have u: "update_stream_one env i st = Inr ?st'"
    using stream_file_under_root[OF assms(1-5)] assms(6) hit stale
    by (simp add: update_stream_one_def register_file_cases)
  obtain r where r: "find (\<lambda>r. f_name r = filename) (files ?d) = Some r"
    and rid: "f_id r = old_id"
    using hit by (auto simp: select_file_def split: option.splits)
  have rin: "r \<in> set (files ?d)" and rn: "f_name r = filename"
    using find_Some_name[OF r] by auto
  have dn: "distinct (map f_name (files ?d))" and di: "distinct (map f_id (files ?d))"
    and seq: "\<forall>x \<in> set (files ?d). f_id x \<le> file_seq ?d"
    and fk: "\<forall>x \<in> set (sindex ?d). col_file x \<in> set (map f_id (files ?d))"
    using ok by (auto simp: db_ok_def)
  have del: "filter (\<lambda>x. f_name x = filename) (files ?d) = [r]"
    using distinct_name_filter[OF dn rin] rn by simp
  have six: "sindex ?d' = filter (\<lambda>x. col_file x \<noteq> old_id) (sindex ?d)"
    by (simp add: delete_file_def del rid)
  have others: "f_id g \<noteq> old_id" if "g \<in> set (files ?d)" "f_name g \<noteq> filename" for g
    using that di rin rid rn by (metis distinct_map inj_onD)
  have "file_seq (delete_file filename ?d) = file_seq ?d" by (simp add: delete_file_def)
  then have gt: "file_seq ?d < ?new" using next_rowid_gt_seq[of "delete_file filename ?d"] by simp
  have fresh: "f_id g \<noteq> ?new" if "g \<in> set (files ?d)" for g
    using that seq gt by fastforce
  have nosix: "col_file x \<noteq> ?new" if "x \<in> set (sindex ?d')" for x
  proof -
    from that have "x \<in> set (sindex ?d)" by (simp add: six)
    then obtain g where "g \<in> set (files ?d)" "f_id g = col_file x" using fk by auto
    then show ?thesis using fresh by metis
  qed
  have mg: "merge_rows [x] ?d' = Inr (?d'\<lparr>sindex := sindex ?d' @ [x]\<rparr>)" if "col_file x = ?new" for x
  proof -
    have "index_key x \<notin> set (map index_key (sindex ?d'))"
    proof
      assume "index_key x \<in> set (map index_key (sindex ?d'))"
      then obtain y where y: "y \<in> set (sindex ?d')" "index_key y = index_key x" by auto
      then have "col_file y = ?new" using that by (simp add: index_key_def)
      then show False using nosix[OF y(1)] by simp
    qed
    moreover have "col_file x \<in> set (map f_id (files ?d'))" using that by simp
    ultimately show ?thesis by simp
  qed
  have sel: "select_file filename ?d' = Some (?new, cur_mtime)"
    by (rule select_file_append_same[OF select_file_delete_same])
  have fl: "filter (\<lambda>x. f_name x \<noteq> filename) (files ?d') =
            filter (\<lambda>x. f_name x \<noteq> filename) (files ?d)"
    by (simp add: delete_file_def)
  show ?thesis
    apply (rule exI[of _ ?st'], rule exI[of _ ?new])
    using u sel six fl others fresh nosix mg by (simp del: merge_rows.simps)
qed


lemma ignored_inv_step:
  assumes "ignored_inv env (sindex_streams st)"
    and "update_stream_one env (length (sindex_streams st)) st = Inr st'"
  shows "ignored_inv env (sindex_streams st')"
proof -
  let ?n = "length (sindex_streams st)"
  from update_stream_one_shape[OF assms(2)] obtain k where
    k: "sindex_streams st' = sindex_streams st @ [k]" by blast
  have new: "case stream_file env ?n of Inl e \<Rightarrow> False | Inr None \<Rightarrow> k = - 1
             | Inr (Some fm) \<Rightarrow> True"
    using assms(2) k by (auto simp: update_stream_one_def split: sum.splits option.splits)
  show ?thesis
    unfolding ignored_inv_def k
  proof (intro allI impI)
    fix i assume "i < length (sindex_streams st @ [k])"
    then consider "i < ?n" | "i = ?n" by fastforce
    then show "case stream_file env i of Inl e \<Rightarrow> False
               | Inr None \<Rightarrow> (sindex_streams st @ [k]) ! i = - 1 | Inr (Some fm) \<Rightarrow> True"
    proof cases
      case 1
      then show ?thesis using assms(1)
        by (auto simp: ignored_inv_def nth_append split: sum.splits option.splits)
    next
      case 2
      then show ?thesis using new by (auto split: sum.splits option.splits)
    qed
  qed
qed

lemma ignored_inv_loop:
  "ignored_inv env (sindex_streams st) \<Longrightarrow>
   update_stream_loop env [length (sindex_streams st)..<nr] st = Inr st' \<Longrightarrow>
   ignored_inv env (sindex_streams st')"
proof (induction "nr - length (sindex_streams st)" arbitrary: st)
  case 0
  then show ?case by simp
next
  case (Suc n)
  then have lt: "length (sindex_streams st) < nr" by simp
  from Suc.prems(2) obtain st1 where
    s1: "update_stream_one env (length (sindex_streams st)) st = Inr st1" and
    s2: "update_stream_loop env [Suc (length (sindex_streams st))..<nr] st1 = Inr st'"
    by (auto simp: upt_conv_Cons[OF lt] split: sum.splits)
  have len: "length (sindex_streams st1) = Suc (length (sindex_streams st))"
    using update_stream_one_shape[OF s1] by auto
  show ?case
    using Suc.hyps(1)[of st1] Suc.hyps(2) ignored_inv_step[OF Suc.prems(1) s1] s2 len by simp
qed

lemma ignored_inv_update_stream:
  "ignored_inv env (sindex_streams st) \<Longrightarrow> update_stream env nr st = Inr st' \<Longrightarrow>
   ignored_inv env (sindex_streams st')"
  by (auto simp: update_stream_def dest: ignored_inv_loop split: if_splits)

lemma ignored_inv_report:
  "ignored_inv env (sindex_streams st) \<Longrightarrow> report H env ev st = Inr st' \<Longrightarrow>
   ignored_inv env (sindex_streams st')"
  using report_shape ignored_inv_update_stream by metis

lemma ignored_inv_dissect:
  "ignored_inv env (sindex_streams st) \<Longrightarrow> dissect H env evs st = Inr st' \<Longrightarrow>
   ignored_inv env (sindex_streams st')"
proof (induction evs arbitrary: st)
  case Nil
  then show ?case by simp
next
  case (Cons ev evs)
  then obtain st1 where s1: "report H env ev st = Inr st1"
    and s2: "dissect H env evs st1 = Inr st'"
    by (auto split: sum.splits)
  show ?case using Cons.IH[OF ignored_inv_report[OF Cons.prems(1) s1] s2] .
qed

lemma dissect_snoc:
  "dissect H env (evs @ [ev]) st =
     (case dissect H env evs st of Inl e \<Rightarrow> Inl e | Inr st1 \<Rightarrow> report H env ev st1)"
  by (induction evs arbitrary: st) (auto split: sum.splits)

lemma r_symbol_ignored:
  assumes "r_symbol env nr ctx mode pos sy st = Inr st'"
    and "ignored_inv env (sindex_streams st)"
    and "stream_file env (pos_stream pos) = Inr None \<or> (\<exists>e. stream_file env (pos_stream pos) = Inl e)"
  shows "tempdb st' = tempdb st \<and> pos_stream pos < length (sindex_streams st') \<and>
         sindex_streams st' ! pos_stream pos = - 1"
proof -
  from r_symbol_shape[OF assms(1)] obtain st1 where
    up: "update_stream env nr st = Inr st1" and s: "sindex_streams st' = sindex_streams st1"
    by blast
  have inv1: "ignored_inv env (sindex_streams st1)"
    by (rule ignored_inv_update_stream[OF assms(2) up])
  have rng: "pos_stream pos < length (sindex_streams st1)"
    using assms(1) up by (auto simp: r_symbol_def split: if_splits)
  then have sl: "sindex_streams st1 ! pos_stream pos = - 1"
    using inv1 assms(3) by (auto simp: ignored_inv_def split: sum.splits option.splits)
  then have "st' = st1" using assms(1) up rng by (simp add: r_symbol_def)
  then show ?thesis using update_stream_shape[OF up] rng sl by simp
qed

lemma r_member_ignored:
  assumes "r_member env nr ctx mode pos sy mem st = Inr st'"
    and "ignored_inv env (sindex_streams st)"
    and "stream_file env (pos_stream pos) = Inr None \<or> (\<exists>e. stream_file env (pos_stream pos) = Inl e)"
  shows "tempdb st' = tempdb st \<and> pos_stream pos < length (sindex_streams st') \<and>
         sindex_streams st' ! pos_stream pos = - 1"
proof -
  from r_member_shape[OF assms(1)] obtain st1 where
    up: "update_stream env nr st = Inr st1" and s: "sindex_streams st' = sindex_streams st1"
    by blast
  have inv1: "ignored_inv env (sindex_streams st1)"
    by (rule ignored_inv_update_stream[OF assms(2) up])
  have rng: "pos_stream pos < length (sindex_streams st1)"
    using assms(1) up by (auto simp: r_member_def split: if_splits)
  then have sl: "sindex_streams st1 ! pos_stream pos = - 1"
    using inv1 assms(3) by (auto simp: ignored_inv_def split: sum.splits option.splits)
  then have "st' = st1" using assms(1) up rng by (simp add: r_member_def)
  then show ?thesis using update_stream_shape[OF up] rng sl by simp
qed

lemma report_ignored:
  assumes "report H env ev st = Inr st'"
    and "ignored_inv env (sindex_streams st)"
    and "stream_file env (pos_stream (call_pos (ev_call ev))) = Inr None \<or>
         (\<exists>e. stream_file env (pos_stream (call_pos (ev_call ev))) = Inl e)"
  shows "tempdb st' = tempdb st \<and>
         pos_stream (call_pos (ev_call ev)) < length (sindex_streams st') \<and>
         sindex_streams st' ! pos_stream (call_pos (ev_call ev)) = - 1"
proof (cases "ev_call ev")
  case (R_symdef sy)
  then show ?thesis using assms r_symbol_ignored[of env _ _ _ "sym_pos sy" sy st st']
    by (simp add: r_symdef_def)
next
  case (R_symbol mode pos sy)
  then show ?thesis using assms r_symbol_ignored[of env _ _ mode pos sy st st'] by simp
next
  case (R_memdef sy mem)
  then show ?thesis using assms r_member_ignored[of env _ _ _ "sym_pos mem" sy "Some mem" st st']
    by (simp add: r_memdef_def)
next
  case (R_member mode pos sy mem)
  then show ?thesis using assms r_member_ignored[of env _ _ mode pos sy mem st st'] by simp
qed

lemma stream_file_outside:
  assumes "i < length (input_streams env)"
    "realpath env (s_name (input_streams env ! i)) = Some fullname"
    "\<not> under_root (cwd env) fullname"
  shows "stream_file env i = Inr None \<or> (\<exists>e. stream_file env i = Inl e)"
  using assms by (auto simp: stream_file_def Let_def split: option.splits)

text \<open>
  C4. In a run of \<^verbatim>\<open>add\<close>, a call of the reporter for a position in a stream
  whose real path does not lie under the project root (the working directory followed
  by \<^verbatim>\<open>/\<close>) leaves the staging table as it was before the call, and the slot of
  the stream holds the sentinel -1.
\<close>

theorem outside_root_no_record:
  assumes run: "dissect H env (evs @ [ev]) (add_init d) = Inr st'"
    and i: "i = pos_stream (call_pos (ev_call ev))"
    and rng: "i < length (input_streams env)"
    and rp: "realpath env (s_name (input_streams env ! i)) = Some fullname"
    and out: "\<not> under_root (cwd env) fullname"
  shows "\<exists>st. dissect H env evs (add_init d) = Inr st \<and> tempdb st' = tempdb st \<and>
              i < length (sindex_streams st') \<and> sindex_streams st' ! i = - 1"
proof -
  from run obtain st where pre: "dissect H env evs (add_init d) = Inr st"
    and last: "report H env ev st = Inr st'"
    by (auto simp: dissect_snoc split: sum.splits)
  have "ignored_inv env (sindex_streams (add_init d))"
    by (simp add: ignored_inv_def add_init_def)
  from ignored_inv_dissect[OF this pre] have inv: "ignored_inv env (sindex_streams st)" .
  from report_ignored[OF last inv] stream_file_outside[OF rng rp out] i pre
  show ?thesis by simp
qed

theorem outside_root_no_record_witness:
  "dissect sparse_dissect_h env0 (events0 @ [event_y]) (add_init db_empty) = Inr staged_y \<and>
   2 = pos_stream (call_pos (ev_call event_y)) \<and>
   2 < length (input_streams env0) \<and>
   realpath env0 (s_name (input_streams env0 ! 2)) = Some ''/usr/include/y.h'' \<and>
   \<not> under_root (cwd env0) ''/usr/include/y.h'' \<and>
   dissect sparse_dissect_h env0 events0 (add_init db_empty) = Inr staged1 \<and>
   tempdb staged_y = tempdb staged1 \<and> sindex_streams staged_y ! 2 = - 1"
proof -
  have run: "dissect sparse_dissect_h env0 (events0 @ [event_y]) (add_init db_empty) = Inr staged_y"
    by code_simp
  have i: "2 = pos_stream (call_pos (ev_call event_y))" by code_simp
  have rng: "2 < length (input_streams env0)" by code_simp
  have rp: "realpath env0 (s_name (input_streams env0 ! 2)) = Some ''/usr/include/y.h''"
    by code_simp
  have out: "\<not> under_root (cwd env0) ''/usr/include/y.h''" by code_simp
  have pre: "dissect sparse_dissect_h env0 events0 (add_init db_empty) = Inr staged1"
    by code_simp
  have "tempdb staged_y = tempdb staged1 \<and> sindex_streams staged_y ! 2 = - 1"
    using outside_root_no_record [OF run i rng rp out] pre by simp
  then show ?thesis using run i rng rp out pre by simp
qed

lemma r_member_record:
  assumes run: "r_member env nr ctx mode pos sy mem st = Inr st'"
    and rec: "tempdb st' \<noteq> tempdb st"
    and fit: "length (tag_name sy) + length (member_name mem) + 1 < 1024"
  shows "\<exists>row. tempdb st' = tempdb st @ [row] \<and>
           col_symbol row = tag_name sy @ ''.'' @ member_name mem \<and>
           length (col_symbol row) = length (tag_name sy) + length (member_name mem) + 1 \<and>
           col_kind row = of_char (CHR ''m'')"
proof -
  from r_member_shape[OF run] obtain st1 where
    up: "update_stream env nr st = Inr st1" by blast
  have t1: "tempdb st1 = tempdb st" using update_stream_shape[OF up] by simp
  have si: "(case sym_ident sy of None \<Rightarrow> built_in_ident ''?'' | Some n \<Rightarrow> n) = tag_name sy"
    by (simp add: tag_name_def built_in_ident_def split: option.splits)
  have mi: "(case mem of None \<Rightarrow> built_in_ident ''*''
             | Some m \<Rightarrow> (case sym_ident m of None \<Rightarrow> built_in_ident ''?'' | Some n \<Rightarrow> n)) =
            member_name mem"
    by (simp add: member_name_def built_in_ident_def split: option.splits)
  have mn: "memname (tag_name sy) (member_name mem) = tag_name sy @ ''.'' @ member_name mem"
    using fit by (simp add: memname_def)
  have bt: "bind_text (tag_name sy @ CHR ''.'' # member_name mem)
              (int (length (tag_name sy)) + int (length (member_name mem)) + 1) =
            Inr (tag_name sy @ CHR ''.'' # member_name mem)"
    by (simp add: bind_text_def)
  show ?thesis
    using run rec t1
    unfolding r_member_def up Let_def si mi mn
    by (auto simp: insert_record_def bt split: sum.splits if_splits)
qed

text \<open>
  C8. A member call (\<^verbatim>\<open>r_member\<close>, or \<^verbatim>\<open>r_memdef\<close>, which calls it) that
  stages a record stages exactly one, whose symbol is the tag, a dot and the member:
  the tag is \<^verbatim>\<open>?\<close> when the aggregate has no identifier, the member is \<^verbatim>\<open>?\<close>
  when the member has no identifier and \<^verbatim>\<open>*\<close> when it is null. The length of the
  symbol is the sum of both lengths plus one, and the kind is \<^verbatim>\<open>m\<close>. The
  hypothesis on the lengths says that the composite fits the 1024 bytes of
  \<^verbatim>\<open>memname\<close>; the frontend's identifiers are far shorter.
\<close>

theorem member_record:
  assumes run: "report H env ev st = Inr st'"
    and call: "member_call (ev_call ev) = Some (sy, mem)"
    and rec: "tempdb st' \<noteq> tempdb st"
    and fit: "length (tag_name sy) + length (member_name mem) + 1 < 1024"
  shows "\<exists>row. tempdb st' = tempdb st @ [row] \<and>
           col_symbol row = tag_name sy @ ''.'' @ member_name mem \<and>
           length (col_symbol row) = length (tag_name sy) + length (member_name mem) + 1 \<and>
           col_kind row = of_char (CHR ''m'')"
proof (cases "ev_call ev")
  case (R_symdef x1)
  then show ?thesis using call by simp
next
  case (R_symbol x21 x22 x23)
  then show ?thesis using call by simp
next
  case (R_memdef sy' mem')
  then have "r_member env (ev_stream_nr ev) (ev_ctx ev) (U_DEF H) (sym_pos mem') sy (Some mem') st = Inr st'"
    and "mem = Some mem'"
    using run call by (simp_all add: r_memdef_def)
  then show ?thesis using r_member_record[OF _ rec] fit by blast
next
  case (R_member mode pos sy' mem')
  then have "r_member env (ev_stream_nr ev) (ev_ctx ev) mode pos sy mem st = Inr st'"
    using run call by simp
  then show ?thesis using r_member_record[OF _ rec fit] by blast
qed

theorem member_record_witness:
  "report sparse_dissect_h env0 event_member (add_init db_empty) = Inr staged_member \<and>
   member_call (ev_call event_member) = Some (sym_s, None) \<and>
   tempdb staged_member \<noteq> tempdb (add_init db_empty) \<and>
   length (tag_name sym_s) + length (member_name None) + 1 < 1024 \<and>
   (\<exists>row. tempdb staged_member = tempdb (add_init db_empty) @ [row] \<and>
      col_symbol row = ''s'' @ ''.'' @ ''*'' \<and>
      length (col_symbol row) = length ''s'' + length ''*'' + 1 \<and>
      col_kind row = of_char (CHR ''m''))"
proof -
  have run: "report sparse_dissect_h env0 event_member (add_init db_empty) = Inr staged_member"
    by code_simp
  have call: "member_call (ev_call event_member) = Some (sym_s, None)"
    by code_simp
  have rec: "tempdb staged_member \<noteq> tempdb (add_init db_empty)"
    by code_simp
  have fit: "length (tag_name sym_s) + length (member_name None) + 1 < 1024"
    by code_simp
  have names: "tag_name sym_s = ''s''" "member_name None = ''*''"
    by code_simp+
  have "\<exists>row. tempdb staged_member = tempdb (add_init db_empty) @ [row] \<and>
      col_symbol row = ''s'' @ ''.'' @ ''*'' \<and>
      length (col_symbol row) = length ''s'' + length ''*'' + 1 \<and>
      col_kind row = of_char (CHR ''m'')"
    using member_record [OF run call rec fit] unfolding names .
  then show ?thesis using run call rec fit by blast
qed

text \<open>
  C2, as the source has it. The merge at the end of \<^verbatim>\<open>add\<close> skips a staged row
  whose key is in the persistent \<^verbatim>\<open>sindex\<close> table, which stays as it is. When a
  run of \<^verbatim>\<open>add\<close> has succeeded, a second run with the same answers of the file
  system and the same calls of the frontend succeeds and leaves the whole database, in
  particular the index records, unchanged.
\<close>

theorem merge_coalesces_add_idempotent:
  "(index_key r \<in> set (map index_key (sindex d)) \<longrightarrow>
      merge_rows (r # rs) d = merge_rows rs d \<and> merge_rows [r] d = Inr d) \<and>
   (stable_mtimes env \<and> command_add H env evs d0 = Inr d1 \<longrightarrow>
      command_add H env evs d1 = Inr d1)"
  using add_idempotent[of env H evs d0 d1] by simp

theorem merge_coalesces_add_idempotent_witness:
  "index_key row_x_in_g \<in> set (map index_key (sindex db1)) \<and>
   merge_rows [row_x_in_g] db1 = Inr db1 \<and>
   stable_mtimes env0 \<and>
   command_add sparse_dissect_h env0 events0 db_empty = Inr db1 \<and>
   command_add sparse_dissect_h env0 events0 db1 = Inr db1"
proof -
  have k: "index_key row_x_in_g \<in> set (map index_key (sindex db1))" by code_simp
  have s: "stable_mtimes env0" by code_simp
  have r: "command_add sparse_dissect_h env0 events0 db_empty = Inr db1" by code_simp
  show ?thesis
    using merge_coalesces_add_idempotent [of row_x_in_g db1 "[]" env0 sparse_dissect_h events0 db_empty db1]
      k s r by simp
qed

text \<open>
  C2, as stated, fails for the staging table: \<^verbatim>\<open>tempdb.sindex\<close> has no unique
  index, so a record whose key is already staged is stored as well. Here the same point
  is reported in another context, and the set of staged records grows.
\<close>

theorem staging_keeps_duplicates_counterexample:
  "index_key row_x_in_g \<in> set (map index_key [row_x_in_f]) \<and>
   insert_record rec_x_in_g ((add_init db_empty)\<lparr>tempdb := [row_x_in_f]\<rparr>) =
     Inr ((add_init db_empty)\<lparr>tempdb := [row_x_in_f, row_x_in_g]\<rparr>) \<and>
   set [row_x_in_f, row_x_in_g] \<noteq> set [row_x_in_f]"
  by code_simp
























end
